theory Spec2Isabelle
  imports Complex_Main
begin

text \<open>
  The sync service of innersync-core: \<^verbatim>\<open>SyncService\<close> (service.js), which turns file
  events and manual triggers into debounced runs of export and upload, one at a time, and
  keeps a bounded history of their outcomes; and \<^verbatim>\<open>uploadTimetable\<close> (apiClient.js),
  which resolves a token, uploads and retries after an authorization failure. Each
  function of the source is a function here on an explicit state; what the source awaits
  is where a function is cut in two. The exporter, the file system, the clock and the
  remote side are inputs.
\<close>

section \<open>Strings and JavaScript truthiness\<close>

text \<open>
  Strings are \<^typ>\<open>string\<close>; the model covers ASCII text. A value that may be
  \<^verbatim>\<open>undefined\<close> or \<^verbatim>\<open>null\<close> is an \<^typ>\<open>'a option\<close>. A string is falsy
  exactly when it is missing or empty, which is what \<^verbatim>\<open>||\<close> and \<^verbatim>\<open>!\<close> test.
\<close>

definition truthy :: "string option \<Rightarrow> bool" where
  "truthy v = (case v of None \<Rightarrow> False | Some s \<Rightarrow> s \<noteq> [])"

text \<open>\<^verbatim>\<open>a || b\<close> on possibly missing strings.\<close>

definition js_or :: "string option \<Rightarrow> string option \<Rightarrow> string option" where
  "js_or a b = (if truthy a then a else b)"

text \<open>
  A number of the configuration is a \<^typ>\<open>rat\<close>: any finite number a JSON file can
  write, fractions and negative numbers included, taken exactly (the rounding of doubles
  is not modelled). \<^verbatim>\<open>Number(x || d)\<close> on such a setting: a missing or zero value
  gives the default, every other number is kept as it is.
\<close>

definition number_or :: "rat option \<Rightarrow> rat \<Rightarrow> rat" where
  "number_or v d = (case v of None \<Rightarrow> d | Some n \<Rightarrow> if n = 0 then d else n)"

text \<open>
  \<^verbatim>\<open>ToIntegerOrInfinity\<close>, which the array methods apply to their numeric arguments:
  the fraction is cut off, towards zero.
\<close>

definition js_trunc :: "rat \<Rightarrow> int" where
  "js_trunc q = (if 0 \<le> q then \<lfloor>q\<rfloor> else \<lceil>q\<rceil>)"

subsection \<open>capitalizeReason (service.js, lines 281-287)\<close>

text \<open>\<^verbatim>\<open>String.prototype.toUpperCase\<close> on one ASCII character.\<close>

definition toUpperCase :: "char \<Rightarrow> char" where
  "toUpperCase c =
     (case map_of (zip ''abcdefghijklmnopqrstuvwxyz'' ''ABCDEFGHIJKLMNOPQRSTUVWXYZ'') c of
        None \<Rightarrow> c
      | Some u \<Rightarrow> u)"

definition cons_first :: "char \<Rightarrow> string list \<Rightarrow> string list" where
  "cons_first c wss = (case wss of [] \<Rightarrow> [[c]] | w # ws \<Rightarrow> (c # w) # ws)"

text \<open>\<^verbatim>\<open>text.split(' ')\<close>: the pieces between single spaces, empty pieces included.\<close>

fun split_sp :: "string \<Rightarrow> string list" where
  "split_sp [] = [[]]"
| "split_sp (c # cs) =
     (if c = CHR '' '' then [] # split_sp cs else cons_first c (split_sp cs))"

text \<open>\<^verbatim>\<open>words.join(' ')\<close>.\<close>

fun join_sp :: "string list \<Rightarrow> string" where
  "join_sp [] = []"
| "join_sp [w] = w"
| "join_sp (w # v # ws) = w @ CHR '' '' # join_sp (v # ws)"

definition cap_word :: "string \<Rightarrow> string" where
  "cap_word word = (case word of [] \<Rightarrow> [] | c # cs \<Rightarrow> toUpperCase c # cs)"

definition capitalizeReason :: "string \<Rightarrow> string" where
  "capitalizeReason text =
     (if text = [] then [] else join_sp (map cap_word (split_sp text)))"

text \<open>
  The transformation as the specification words it, read character by character: a
  character is uppercased exactly when it starts a word, that is when it is not a space
  and stands first or right after a space. The flag says whether a word starts here.
\<close>

fun title_from :: "bool \<Rightarrow> string \<Rightarrow> string" where
  "title_from b [] = []"
| "title_from b (c # cs) =
     (if c = CHR '' '' then c # title_from True cs
      else (if b then toUpperCase c else c) # title_from False cs)"

definition title_case :: "string \<Rightarrow> string" where
  "title_case text = title_from True text"

section \<open>The data model of the sync service\<close>

datatype run_state = Idle | Syncing | Error | Stopped

datatype result_status = Success | Skipped | Failed

text \<open>
  The parsed JSON body of an upload response, as far as the program reads it: its
  \<^verbatim>\<open>status\<close> and \<^verbatim>\<open>message\<close> members.
\<close>

record body =
  b_status :: "string option"
  b_message :: "string option"

text \<open>What \<^verbatim>\<open>uploadTimetable\<close> returns: its two skipped outcomes and its final object.\<close>

record upload_result =
  ur_status :: "nat option"
  ur_body :: "body option"
  ur_payloadHash :: "string option"
  ur_skipped :: bool
  ur_message :: "string option"
  ur_reason :: "string option"

record last_result =
  lr_status :: result_status
  lr_payloadHash :: "string option"
  lr_response :: "body option"
  lr_reason :: "string option"
  lr_message :: "string option"
  lr_outputDir :: "string option"

record history_entry =
  he_timestamp :: string
  he_status :: result_status
  he_reason :: string
  he_payloadHash :: "string option"
  he_response :: "body option"
  he_skippedReason :: "string option"
  he_message :: "string option"

subsection \<open>Array operations of the history list\<close>

text \<open>
  \<^verbatim>\<open>xs.slice(k)\<close>: a negative start counts from the end, and the start is clamped to
  the array.
\<close>

definition js_slice_from :: "rat \<Rightarrow> 'a list \<Rightarrow> 'a list" where
  "js_slice_from k xs =
     (let len = int (length xs);
          relativeStart = js_trunc k;
          start = (if relativeStart < 0 then max (len + relativeStart) 0
                   else min relativeStart len)
      in drop (nat start) xs)"

text \<open>\<^verbatim>\<open>xs.splice(0, n)\<close>: the delete count is clamped to between 0 and the length.\<close>

definition js_splice0 :: "rat \<Rightarrow> 'a list \<Rightarrow> 'a list" where
  "js_splice0 n xs = drop (nat (min (max (js_trunc n) 0) (int (length xs)))) xs"

section \<open>SyncService (service.js)\<close>

text \<open>
  The settings the constructor and the upload read. Paths are taken as already resolved:
  \<^verbatim>\<open>resolveMaybe\<close> only prefixes the base directory. The \<^verbatim>\<open>login\<close> setting
  is read member by member, so it matters whether it is missing, \<^verbatim>\<open>null\<close> or an
  object.
\<close>

datatype 'a js_arg = Undefined | Null | Given 'a

record login_config =
  email :: "string option"
  password :: "string option"
  device_name :: "string option"
  replace_existing :: "bool option"

record config =
  cfg_apiBaseUrl :: "string option"
  cfg_apiUrl :: "string option"
  cfg_apiToken :: "string option"
  cfg_login :: "login_config js_arg"
  cfg_tokenCachePath :: "string option"
  cfg_watchFiles :: "string list option"
  cfg_debounceMs :: "rat option"
  cfg_historyLimit :: "rat option"

record status_snapshot =
  st_state :: run_state
  st_paused :: bool
  st_running :: bool
  st_lastRun :: "string option"
  st_lastResult :: "last_result option"
  st_history :: "history_entry list"
  st_watchFiles :: "string list"

text \<open>
  What the service sends out: the two events of its emitter, the request to persist the
  history (\<^verbatim>\<open>void this.saveHistory()\<close>, best effort, never awaited) and the lines it
  hands to the logger.
\<close>

datatype effect =
    EmitStatus status_snapshot
  | EmitHistory "history_entry list"
  | SaveHistory
  | LogInfo string
  | LogWarn string
  | LogError string

text \<open>
  The fields of the object, followed by the part of the JavaScript runtime the object
  lives in: \<open>armed\<close> are the timeouts that are set and have neither fired nor been
  cleared (handle and delay; the callback of every one is \<^verbatim>\<open>processQueue\<close>),
  \<open>next_handle\<close> is the next fresh timeout handle, \<open>inflight\<close> are the calls of
  \<^verbatim>\<open>runSync\<close> that wait for their export and upload (reason and timestamp), and
  \<open>effects\<close> is everything sent out so far, oldest first.
\<close>

record service =
  config :: config
  debounceMs :: rat
  historyLimit :: rat
  watchFiles :: "string list"
  state :: run_state
  running :: bool
  paused :: bool
  lastRun :: "string option"
  lastResult :: "last_result option"
  history :: "history_entry list"
  watcher :: bool
  timer :: "nat option"
  pendingReason :: "string option"
  armed :: "(nat \<times> rat) list"
  next_handle :: nat
  inflight :: "(string \<times> string) list"
  effects :: "effect list"

definition DEFAULT_HISTORY_LIMIT :: rat where
  "DEFAULT_HISTORY_LIMIT = 50"

definition new_service :: "config \<Rightarrow> service" where
  "new_service cfg =
     \<lparr> config = cfg,
       debounceMs = number_or (cfg_debounceMs cfg) 2000,
       historyLimit = number_or (cfg_historyLimit cfg) DEFAULT_HISTORY_LIMIT,
       watchFiles = (case cfg_watchFiles cfg of None \<Rightarrow> [''Timetable.tfx''] | Some fs \<Rightarrow> fs),
       state = Idle, running = False, paused = False,
       lastRun = None, lastResult = None, history = [],
       watcher = False, timer = None, pendingReason = None,
       armed = [], next_handle = 0, inflight = [], effects = [] \<rparr>"

subsection \<open>Status and timers\<close>

text \<open>
  \<open>emit e s\<close>: the effect is sent out and everyone who receives it (the subscribers of
  the emitter, the logger) returns. What the code does when one of them throws is
  modelled in the section on receivers that throw, by \<open>deliver\<close>; the two agree when
  no receiver throws (\<open>deliver_quiet\<close>).
\<close>

definition emit :: "effect \<Rightarrow> service \<Rightarrow> service" where
  "emit e s = s\<lparr>effects := effects s @ [e]\<rparr>"

definition getStatus :: "service \<Rightarrow> status_snapshot" where
  "getStatus s =
     \<lparr> st_state = state s, st_paused = paused s, st_running = running s,
       st_lastRun = lastRun s, st_lastResult = lastResult s,
       st_history = history s, st_watchFiles = watchFiles s \<rparr>"

definition emitStatus :: "service \<Rightarrow> service" where
  "emitStatus s = emit (EmitStatus (getStatus s)) s"

text \<open>\<^verbatim>\<open>clearTimeout(h)\<close>: the timeout, if still set, will not fire.\<close>

definition clearTimeout :: "nat \<Rightarrow> service \<Rightarrow> service" where
  "clearTimeout h s = s\<lparr>armed := filter (\<lambda>t. fst t \<noteq> h) (armed s)\<rparr>"

text \<open>\<^verbatim>\<open>this.timer = setTimeout(() => this.processQueue(), this.debounceMs)\<close>.\<close>

definition arm_timer :: "service \<Rightarrow> service" where
  "arm_timer s =
     s\<lparr> timer := Some (next_handle s),
        armed := armed s @ [(next_handle s, debounceMs s)],
        next_handle := Suc (next_handle s) \<rparr>"

subsection \<open>The history list (lines 231-268)\<close>

text \<open>What reading and parsing the history file gives \<^verbatim>\<open>loadHistory\<close>.\<close>

datatype history_read =
    ReadFailed bool string
  | ParseFailed string
  | NotAnArray
  | Parsed "history_entry list"

text \<open>
  \<^verbatim>\<open>loadHistory\<close>, from the moment its read has settled. In \<open>ReadFailed enoent msg\<close>
  the flag says whether the error code is \<^verbatim>\<open>ENOENT\<close>, which is not logged.
\<close>

definition loadHistory :: "history_read \<Rightarrow> service \<Rightarrow> service" where
  "loadHistory rd s =
     (case rd of
        Parsed parsed \<Rightarrow> s\<lparr>history := js_slice_from (- historyLimit s) parsed\<rparr>
      | NotAnArray \<Rightarrow> s
      | ReadFailed enoent msg \<Rightarrow>
          (if enoent then s else emit (LogWarn (''[sync] unable to load history '' @ msg)) s)
            \<lparr>history := []\<rparr>
      | ParseFailed msg \<Rightarrow>
          (emit (LogWarn (''[sync] unable to load history '' @ msg)) s)\<lparr>history := []\<rparr>)"

definition pushHistory :: "history_entry \<Rightarrow> service \<Rightarrow> service" where
  "pushHistory entry s =
     (let pushed = history s @ [entry];
          kept = (if of_nat (length pushed) > historyLimit s
                  then js_splice0 (of_nat (length pushed) - historyLimit s) pushed
                  else pushed)
      in emit (EmitHistory kept) (emit SaveHistory (s\<lparr>history := kept\<rparr>)))"

subsection \<open>runSync (lines 157-229)\<close>

text \<open>
  \<^verbatim>\<open>runSync\<close> suspends once, at the export and upload it awaits. \<open>runSync_begin\<close>
  is the part before that, \<open>runSync_finish\<close> the part after it. What the awaited steps
  ended with is the \<open>outcome\<close>: \<open>Inl msg\<close> when one of them threw an error with that
  message, \<open>Inr (outputDir, uploadResult)\<close> when both resolved.
\<close>

type_synonym outcome = "string + (string \<times> upload_result)"

definition runSync_begin :: "string \<Rightarrow> string \<Rightarrow> service \<Rightarrow> service" where
  "runSync_begin timestamp reason s =
     (let s1 = emitStatus (s\<lparr>running := True, state := Syncing\<rparr>)
      in s1\<lparr>inflight := inflight s1 @ [(reason, timestamp)]\<rparr>)"

definition upload_message :: "upload_result \<Rightarrow> string option" where
  "upload_message u =
     js_or (ur_message u)
       (js_or (ur_reason u) (case ur_body u of None \<Rightarrow> None | Some b \<Rightarrow> b_message b))"

definition result_status_of :: "upload_result \<Rightarrow> result_status" where
  "result_status_of u = (if ur_skipped u then Skipped else Success)"

text \<open>The object \<^verbatim>\<open>runSync\<close> stores in \<^verbatim>\<open>lastResult\<close>.\<close>

definition run_result :: "string \<Rightarrow> outcome \<Rightarrow> last_result" where
  "run_result reason outcome =
     (case outcome of
        Inr (outputDir, u) \<Rightarrow>
          \<lparr> lr_status = result_status_of u,
            lr_payloadHash = ur_payloadHash u,
            lr_response = ur_body u,
            lr_reason = js_or (ur_reason u) (Some reason),
            lr_message = upload_message u,
            lr_outputDir = Some outputDir \<rparr>
      | Inl msg \<Rightarrow>
          \<lparr> lr_status = Failed, lr_payloadHash = None, lr_response = None,
            lr_reason = None, lr_message = Some msg, lr_outputDir = None \<rparr>)"

text \<open>The object \<^verbatim>\<open>runSync\<close> hands to \<^verbatim>\<open>pushHistory\<close>.\<close>

definition run_entry :: "string \<Rightarrow> string \<Rightarrow> outcome \<Rightarrow> history_entry" where
  "run_entry timestamp reason outcome =
     (case outcome of
        Inr (outputDir, u) \<Rightarrow>
          \<lparr> he_timestamp = timestamp,
            he_status = result_status_of u,
            he_reason = capitalizeReason reason,
            he_payloadHash = ur_payloadHash u,
            he_response = ur_body u,
            he_skippedReason = (if ur_skipped u then upload_message u else None),
            he_message = upload_message u \<rparr>
      | Inl msg \<Rightarrow>
          \<lparr> he_timestamp = timestamp, he_status = Failed,
            he_reason = capitalizeReason reason,
            he_payloadHash = None, he_response = None,
            he_skippedReason = None, he_message = Some msg \<rparr>)"

definition run_log :: "outcome \<Rightarrow> effect" where
  "run_log outcome =
     (case outcome of
        Inr (outputDir, u) \<Rightarrow>
          (if result_status_of u = Skipped
           then LogInfo ''[sync] skipped (duplicate payload or missing config)''
           else LogInfo (''[sync] completed output -> '' @ outputDir))
      | Inl msg \<Rightarrow> LogError (''[sync] failed '' @ msg))"

definition runSync_finish :: "string \<Rightarrow> string \<Rightarrow> outcome \<Rightarrow> service \<Rightarrow> service" where
  "runSync_finish timestamp reason outcome s =
     (let s1 = s\<lparr> lastRun := Some timestamp,
                  lastResult := Some (run_result reason outcome),
                  state := (case outcome of Inr r \<Rightarrow> Idle | Inl msg \<Rightarrow> Error) \<rparr>;
          s2 = emit (run_log outcome) (pushHistory (run_entry timestamp reason outcome) s1);
          s3 = emitStatus (s2\<lparr>running := False\<rparr>)
      in s3\<lparr>inflight := remove1 (reason, timestamp) (inflight s3)\<rparr>)"

text \<open>A run that nothing interleaves with: the whole of \<^verbatim>\<open>runSync\<close>.\<close>

definition runSync :: "string \<Rightarrow> string \<Rightarrow> outcome \<Rightarrow> service \<Rightarrow> service" where
  "runSync timestamp reason outcome s =
     runSync_finish timestamp reason outcome (runSync_begin timestamp reason s)"

subsection \<open>Scheduling (lines 131-155)\<close>

text \<open>\<^verbatim>\<open>this.pendingReason || 'change detected'\<close>.\<close>

definition pending_or_default :: "string option \<Rightarrow> string" where
  "pending_or_default p =
     (case p of
        None \<Rightarrow> ''change detected''
      | Some r \<Rightarrow> if r = [] then ''change detected'' else r)"

definition processQueue :: "string \<Rightarrow> service \<Rightarrow> service" where
  "processQueue now s =
     (if running s \<or> paused s then arm_timer s
      else
        let reason = pending_or_default (pendingReason s)
        in runSync_begin now reason (s\<lparr>pendingReason := None, timer := None\<rparr>))"

definition cancel_timer :: "service \<Rightarrow> service" where
  "cancel_timer s =
     (case timer s of None \<Rightarrow> s | Some h \<Rightarrow> (clearTimeout h s)\<lparr>timer := None\<rparr>)"

definition scheduleRun :: "string \<Rightarrow> string \<Rightarrow> bool \<Rightarrow> service \<Rightarrow> service" where
  "scheduleRun now reason immediate s =
     (if paused s then s
      else
        let s1 = s\<lparr>pendingReason := Some reason\<rparr>
        in if immediate then processQueue now (cancel_timer s1)
           else arm_timer (case timer s1 of None \<Rightarrow> s1 | Some h \<Rightarrow> clearTimeout h s1))"

definition triggerSync :: "string \<Rightarrow> string option \<Rightarrow> service \<Rightarrow> service" where
  "triggerSync now reason s =
     (if paused s then emit (LogWarn ''[sync] ignored trigger while paused'') s
      else scheduleRun now (case reason of None \<Rightarrow> ''manual trigger'' | Some r \<Rightarrow> r) True s)"

subsection \<open>The watcher and the lifecycle (lines 45-72 and 98-129)\<close>

definition setupWatcher :: "service \<Rightarrow> service" where
  "setupWatcher s =
     (if watcher s \<or> paused s then s
      else if watchFiles s = [] then s
      else s\<lparr>watcher := True\<rparr>)"

text \<open>
  \<^verbatim>\<open>closeWatcher\<close> writes no field before it awaits the watcher's \<^verbatim>\<open>close()\<close>;
  this is what it has done once that has settled.
\<close>

definition closeWatcher :: "service \<Rightarrow> service" where
  "closeWatcher s = (if \<not> watcher s then s else s\<lparr>watcher := False\<rparr>)"

text \<open>
  \<^verbatim>\<open>stop()\<close> awaits \<^verbatim>\<open>closeWatcher\<close> first and has written nothing until then, so
  its whole effect happens at once, when it resumes.
\<close>

definition stop :: "service \<Rightarrow> service" where
  "stop s = emitStatus ((cancel_timer (closeWatcher s))\<lparr>state := Stopped\<rparr>)"

text \<open>
  \<^verbatim>\<open>pause()\<close> sets the flag before it awaits \<^verbatim>\<open>closeWatcher\<close>: \<open>pause_begin\<close>
  is the call up to the await, \<open>pause_finish\<close> the rest.
\<close>

definition pause_begin :: "service \<Rightarrow> service" where
  "pause_begin s = s\<lparr>paused := True\<rparr>"

definition pause_finish :: "service \<Rightarrow> service" where
  "pause_finish s = emitStatus (closeWatcher s)"

definition pause :: "service \<Rightarrow> service" where
  "pause s = pause_finish (pause_begin s)"

definition resume :: "service \<Rightarrow> service" where
  "resume s = (if \<not> paused s then s else emitStatus (setupWatcher (s\<lparr>paused := False\<rparr>)))"

text \<open>
  The callbacks the watcher runs for an added, a changed and a removed file. They are the
  only callers of \<^verbatim>\<open>scheduleRun\<close> that do not ask for an immediate run.
\<close>

definition on_add :: "string \<Rightarrow> string \<Rightarrow> service \<Rightarrow> service" where
  "on_add now filePath s =
     scheduleRun now (''file added: '' @ filePath) False
       (emit (LogInfo (''[watcher] file added '' @ filePath)) s)"

definition on_change :: "string \<Rightarrow> string \<Rightarrow> service \<Rightarrow> service" where
  "on_change now filePath s =
     scheduleRun now (''file changed: '' @ filePath) False
       (emit (LogInfo (''[watcher] file changed '' @ filePath)) s)"

definition on_unlink :: "string \<Rightarrow> service \<Rightarrow> service" where
  "on_unlink filePath s = emit (LogInfo (''[watcher] file removed '' @ filePath)) s"

text \<open>
  \<^verbatim>\<open>start()\<close> awaits the read of the history file before it writes anything;
  \<open>start_resume\<close> is what it does once the read has settled: the rest of
  \<^verbatim>\<open>loadHistory\<close>, then \<^verbatim>\<open>setupWatcher\<close>, then \<^verbatim>\<open>runSync('Startup Sync')\<close> up to
  that run's own await.
\<close>

definition start_resume :: "string \<Rightarrow> history_read \<Rightarrow> service \<Rightarrow> service" where
  "start_resume now rd s = runSync_begin now ''Startup Sync'' (setupWatcher (loadHistory rd s))"

subsection \<open>What can happen to a service, one event at a time\<close>

text \<open>
  JavaScript runs one callback at a time, so the service moves in steps, each running
  from one suspension point to the next. An event that cannot happen in a state (a
  timeout that is not set, a file event from a closed watcher, the settling of a run
  that is not in flight) gives \<open>None\<close>. Events that start a run carry the clock reading
  the run would take as its timestamp.
\<close>

datatype event =
    StartResumes string history_read
  | Stops
  | PauseCalled
  | PauseResumes
  | Resumes
  | Triggered string "string option"
  | FileAdded string string
  | FileChanged string string
  | FileRemoved string
  | TimerFires string nat
  | RunSettles string string outcome

definition step :: "event \<Rightarrow> service \<Rightarrow> service option" where
  "step ev s =
     (case ev of
        StartResumes now rd \<Rightarrow> Some (start_resume now rd s)
      | Stops \<Rightarrow> Some (stop s)
      | PauseCalled \<Rightarrow> Some (pause_begin s)
      | PauseResumes \<Rightarrow> Some (pause_finish s)
      | Resumes \<Rightarrow> Some (resume s)
      | Triggered now reason \<Rightarrow> Some (triggerSync now reason s)
      | FileAdded now filePath \<Rightarrow> (if watcher s then Some (on_add now filePath s) else None)
      | FileChanged now filePath \<Rightarrow>
          (if watcher s then Some (on_change now filePath s) else None)
      | FileRemoved filePath \<Rightarrow> (if watcher s then Some (on_unlink filePath s) else None)
      | TimerFires now h \<Rightarrow>
          (if h \<in> fst ` set (armed s) then Some (processQueue now (clearTimeout h s)) else None)
      | RunSettles timestamp reason outcome \<Rightarrow>
          (if (reason, timestamp) \<in> set (inflight s)
           then Some (runSync_finish timestamp reason outcome s) else None))"

fun steps :: "event list \<Rightarrow> service \<Rightarrow> service option" where
  "steps [] s = Some s"
| "steps (ev # evs) s = (case step ev s of None \<Rightarrow> None | Some s' \<Rightarrow> steps evs s')"

section \<open>The upload (apiClient.js)\<close>

text \<open>
  The world outside the program, as far as the upload touches it. A read of a file gives
  its content or fails with a message; \<open>token_cache\<close> maps a cache path to the
  \<^verbatim>\<open>token\<close> member stored there, if the file can be read and parsed; the remote
  side answers the n-th upload and the n-th login with \<open>upload_replies n\<close> and
  \<open>login_replies n\<close>, where \<open>Rejects\<close> is a fetch, or the reading of its body, that
  fails with that message; \<open>uploads\<close> are the uploads sent so far (bearer token and
  payload hash); \<open>digest\<close> is SHA-256 over the three buffers, in hex; \<open>url_parser\<close>
  is the platform's \<^verbatim>\<open>new URL(relativePath, base).toString()\<close>, \<open>None\<close> when the
  constructor throws. Writing and deleting the cache file are taken to succeed. Logging
  is left out: nothing reads it.
\<close>

datatype 'a reply = Rejects string | Reply 'a

record upload_response =
  rs_status :: nat
  rs_payload :: "body option"

record login_response =
  ls_status :: nat
  ls_token :: "string option"

record world =
  fs :: "string \<Rightarrow> string + string"
  token_cache :: "string \<Rightarrow> string option"
  upload_replies :: "nat \<Rightarrow> upload_response reply"
  login_replies :: "nat \<Rightarrow> login_response reply"
  uploads :: "(string \<times> string) list"
  logins :: nat
  digest :: "string list \<Rightarrow> string"
  url_parser :: "string \<Rightarrow> string \<Rightarrow> string option"

record file_map =
  student_course :: "string option"
  student_timetable :: "string option"
  timetable :: "string option"

record upload_args =
  apiBaseUrl :: "string option"
  apiToken :: "string option"
  login :: "login_config js_arg"
  tokenCachePath :: "string option"
  files :: file_map

text \<open>\<^verbatim>\<open>response.ok\<close>.\<close>

definition ok :: "nat \<Rightarrow> bool" where
  "ok st = (200 \<le> st \<and> st \<le> 299)"

text \<open>
  \<^verbatim>\<open>buildUrl\<close>. A base with no colon in it has no scheme, and \<^verbatim>\<open>new URL\<close>
  accepts no such base; for every other base the platform's parser decides. \<open>None\<close> is
  the \<^verbatim>\<open>TypeError\<close> the constructor throws, whose message is \<^verbatim>\<open>Invalid URL\<close>.
\<close>

definition buildUrl :: "world \<Rightarrow> string \<Rightarrow> string \<Rightarrow> string option" where
  "buildUrl w base relativePath =
     (if CHR '':'' \<notin> set base then None else url_parser w relativePath base)"

text \<open>\<^verbatim>\<open>apiBaseUrl || 'https://innersync.com.au'\<close>.\<close>

definition base_url :: "string option \<Rightarrow> string" where
  "base_url u =
     (case u of
        None \<Rightarrow> ''https://innersync.com.au''
      | Some b \<Rightarrow> if b = [] then ''https://innersync.com.au'' else b)"

text \<open>A status code as the template strings of the error messages print it.\<close>

fun show_nat :: "nat \<Rightarrow> string" where
  "show_nat n =
     (if n < 10 then [char_of (48 + n)]
      else show_nat (n div 10) @ [char_of (48 + n mod 10)])"

declare show_nat.simps [simp del]

definition getCachedToken :: "string option \<Rightarrow> world \<Rightarrow> string option" where
  "getCachedToken path w =
     (case path of
        None \<Rightarrow> None
      | Some p \<Rightarrow> if p = [] then None else js_or (token_cache w p) None)"

definition cacheToken :: "string option \<Rightarrow> string \<Rightarrow> world \<Rightarrow> world" where
  "cacheToken path token w =
     (case path of
        None \<Rightarrow> w
      | Some p \<Rightarrow> if p = [] then w else w\<lparr>token_cache := (token_cache w)(p := Some token)\<rparr>)"

definition clearCachedToken :: "string option \<Rightarrow> world \<Rightarrow> world" where
  "clearCachedToken path w =
     (case path of
        None \<Rightarrow> w
      | Some p \<Rightarrow> if p = [] then w else w\<lparr>token_cache := (token_cache w)(p := None)\<rparr>)"

text \<open>
  \<^verbatim>\<open>loginForToken\<close>: \<open>Inl\<close> is the message of the error it throws, \<open>Inr\<close> the token
  it returns, \<open>None\<close> for \<^verbatim>\<open>null\<close>. It builds the login URL first, then reads the
  members of the login setting (an empty object when the setting is missing; reading a
  member of \<^verbatim>\<open>null\<close> throws), and only then tests the credentials.
\<close>

definition loginForToken ::
  "string \<Rightarrow> login_config js_arg \<Rightarrow> string option \<Rightarrow> world \<Rightarrow> (string + string option) \<times> world"
where
  "loginForToken baseUrl loginConfig path w =
     (case buildUrl w baseUrl ''/api/login'' of
        None \<Rightarrow> (Inl ''Invalid URL'', w)
      | Some loginEndpoint \<Rightarrow>
          (case loginConfig of
             Null \<Rightarrow> (Inl ''Cannot read properties of null (reading 'email')'', w)
           | Undefined \<Rightarrow> (Inr None, w)
           | Given c \<Rightarrow>
               if \<not> (truthy (email c) \<and> truthy (password c)) then (Inr None, w)
               else
                 let w1 = w\<lparr>logins := Suc (logins w)\<rparr>
                 in case login_replies w (logins w) of
                      Rejects msg \<Rightarrow> (Inl msg, w1)
                    | Reply r \<Rightarrow>
                        if \<not> ok (ls_status r)
                        then (Inl (''Login failed with status '' @ show_nat (ls_status r)), w1)
                        else if truthy (ls_token r)
                        then (Inr (ls_token r),
                              (case ls_token r of
                                 None \<Rightarrow> w1
                               | Some t \<Rightarrow> cacheToken path t w1))
                        else (Inr None, w1)))"

text \<open>
  One pass through the body of \<^verbatim>\<open>uploadTimetable\<close>: it returns, throws, or reaches
  the call of itself in the branch for status 401, with the arguments of that call.
\<close>

datatype attempt = Returned upload_result | Threw string | Retry upload_args

definition skipped_result :: "string \<Rightarrow> upload_result" where
  "skipped_result why =
     \<lparr> ur_status = None, ur_body = None, ur_payloadHash = None,
       ur_skipped = True, ur_message = None, ur_reason = Some why \<rparr>"

text \<open>\<^verbatim>\<open>Promise.all\<close> over the three reads: the contents, or the first failure.\<close>

fun read_all :: "world \<Rightarrow> string list \<Rightarrow> string + string list" where
  "read_all w [] = Inr []"
| "read_all w (p # ps) =
     (case fs w p of
        Inl msg \<Rightarrow> Inl msg
      | Inr content \<Rightarrow>
          (case read_all w ps of Inl msg \<Rightarrow> Inl msg | Inr rest \<Rightarrow> Inr (content # rest)))"

text \<open>The token: the one supplied, else the cached one, else one from a login.\<close>

definition resolve_token :: "string \<Rightarrow> upload_args \<Rightarrow> world \<Rightarrow> (string + string option) \<times> world" where
  "resolve_token baseUrl a w =
     (if truthy (apiToken a) then (Inr (apiToken a), w)
      else if truthy (getCachedToken (tokenCachePath a) w)
      then (Inr (getCachedToken (tokenCachePath a) w), w)
      else loginForToken baseUrl (login a) (tokenCachePath a) w)"

definition response_result :: "string \<Rightarrow> upload_response \<Rightarrow> upload_result" where
  "response_result combinedHash r =
     (let message = (case rs_payload r of None \<Rightarrow> None | Some b \<Rightarrow> js_or (b_message b) None)
      in \<lparr> ur_status = Some (rs_status r),
           ur_body = rs_payload r,
           ur_payloadHash = Some combinedHash,
           ur_skipped = (case rs_payload r of
                           None \<Rightarrow> False
                         | Some b \<Rightarrow> b_status b = Some ''skipped''),
           ur_message = message,
           ur_reason = message \<rparr>)"

text \<open>
  The request with the token, once the endpoint has been built, and what the function
  does with the response.
\<close>

definition send_upload ::
  "upload_args \<Rightarrow> string \<Rightarrow> string \<Rightarrow> string \<Rightarrow> world \<Rightarrow> attempt \<times> world"
where
  "send_upload a baseUrl combinedHash token w =
     (let w2 = w\<lparr>uploads := uploads w @ [(token, combinedHash)]\<rparr>
      in case upload_replies w (length (uploads w)) of
           Rejects msg \<Rightarrow> (Threw msg, w2)
         | Reply r \<Rightarrow>
             if rs_status r = 401 \<and> \<not> truthy (apiToken a)
             then (Retry (a\<lparr>apiBaseUrl := Some baseUrl, apiToken := None\<rparr>),
                   clearCachedToken (tokenCachePath a) w2)
             else if \<not> ok (rs_status r)
             then (Threw (''Upload failed with status '' @ show_nat (rs_status r)), w2)
             else (Returned (response_result combinedHash r), w2))"

definition upload_attempt :: "upload_args \<Rightarrow> world \<Rightarrow> attempt \<times> world" where
  "upload_attempt a w =
     (let baseUrl = base_url (apiBaseUrl a);
          resolvedFiles = [(''student_course'', student_course (files a)),
                           (''student_timetable'', student_timetable (files a)),
                           (''timetable'', timetable (files a))];
          missing = map fst (filter (\<lambda>e. \<not> truthy (snd e)) resolvedFiles)
      in if missing \<noteq> []
         then (Returned (skipped_result ''missing files''), w)
         else
           (case read_all w (map (\<lambda>e. case snd e of None \<Rightarrow> [] | Some p \<Rightarrow> p) resolvedFiles) of
              Inl msg \<Rightarrow> (Threw msg, w)
            | Inr buffers \<Rightarrow>
                (case resolve_token baseUrl a w of
                   (Inl msg, w1) \<Rightarrow> (Threw msg, w1)
                 | (Inr token, w1) \<Rightarrow>
                     (case token of
                        None \<Rightarrow> (Returned (skipped_result ''no token''), w1)
                      | Some t \<Rightarrow>
                          if t = [] then (Returned (skipped_result ''no token''), w1)
                          else
                            (case buildUrl w1 baseUrl ''/api/timetable-sync'' of
                               None \<Rightarrow> (Threw ''Invalid URL'', w1)
                             | Some endpoint \<Rightarrow>
                                 send_upload a baseUrl (digest w buffers) t w1)))))"

text \<open>
  \<^verbatim>\<open>uploadTimetable\<close>. \<open>None\<close> is a call that never settles; \<open>Inl\<close> is the message of
  the error it throws.
\<close>

partial_function (option) uploadTimetable ::
  "upload_args \<Rightarrow> world \<Rightarrow> ((string + upload_result) \<times> world) option"
where
  "uploadTimetable a w =
     (case upload_attempt a w of
        (Returned r, w') \<Rightarrow> Some (Inr r, w')
      | (Threw msg, w') \<Rightarrow> Some (Inl msg, w')
      | (Retry a', w') \<Rightarrow> uploadTimetable a' w')"

declare uploadTimetable.simps [code]

subsection \<open>The export and the upload that runSync awaits\<close>

text \<open>
  The exporter is outside this development: what \<^verbatim>\<open>generateTimetable\<close> ended with is
  given, \<open>Inl\<close> the message of its error, \<open>Inr\<close> the paths it returns.
\<close>

record export_paths =
  studentCoursePath :: string
  studentTimetablePath :: string
  timetablePath :: string
  outputDir :: string

definition upload_args_of :: "config \<Rightarrow> export_paths \<Rightarrow> upload_args" where
  "upload_args_of c p =
     \<lparr> apiBaseUrl = js_or (cfg_apiBaseUrl c) (cfg_apiUrl c),
       apiToken = cfg_apiToken c,
       login = cfg_login c,
       tokenCachePath = js_or (cfg_tokenCachePath c) None,
       files = \<lparr> student_course = Some (studentCoursePath p),
                 student_timetable = Some (studentTimetablePath p),
                 timetable = Some (timetablePath p) \<rparr> \<rparr>"

definition pipeline :: "config \<Rightarrow> string + export_paths \<Rightarrow> world \<Rightarrow> (outcome \<times> world) option" where
  "pipeline c exported w =
     (case exported of
        Inl msg \<Rightarrow> Some (Inl msg, w)
      | Inr p \<Rightarrow>
          (case uploadTimetable (upload_args_of c p) w of
             None \<Rightarrow> None
           | Some (Inl msg, w') \<Rightarrow> Some (Inl msg, w')
           | Some (Inr u, w') \<Rightarrow> Some (Inr (outputDir p, u), w')))"

section \<open>Receivers that throw\<close>

text \<open>
  \<^verbatim>\<open>EventEmitter.emit\<close> calls the subscribers of an event one after the other, and an
  exception thrown by one of them leaves \<^verbatim>\<open>emit\<close> and reaches the code that called
  it; a logger handed to the constructor can throw in the same way. Here the receivers
  are a parameter: given everything sent out so far and what is sent now, they return
  (\<open>None\<close>) or one of them throws an error with a message. A piece of code then either
  returns, or throws; in both cases it leaves a service behind.
  (\<^verbatim>\<open>void this.saveHistory()\<close> calls an async function, which cannot throw into its
  caller.)
\<close>

type_synonym receivers = "effect list \<Rightarrow> effect \<Rightarrow> string option"

datatype 'a completion = Returns 'a | Throws string 'a

definition state_after :: "'a completion \<Rightarrow> 'a" where
  "state_after c = (case c of Returns s \<Rightarrow> s | Throws msg s \<Rightarrow> s)"

definition deliver :: "receivers \<Rightarrow> effect \<Rightarrow> service \<Rightarrow> service completion" where
  "deliver rc e s =
     (case rc (effects s) e of
        None \<Rightarrow> Returns (emit e s)
      | Some msg \<Rightarrow> Throws msg (emit e s))"

definition emitStatus_x :: "receivers \<Rightarrow> service \<Rightarrow> service completion" where
  "emitStatus_x rc s = deliver rc (EmitStatus (getStatus s)) s"

definition pushHistory_x :: "receivers \<Rightarrow> history_entry \<Rightarrow> service \<Rightarrow> service completion" where
  "pushHistory_x rc entry s =
     (let pushed = history s @ [entry];
          kept = (if of_nat (length pushed) > historyLimit s
                  then js_splice0 (of_nat (length pushed) - historyLimit s) pushed
                  else pushed)
      in deliver rc (EmitHistory kept) (emit SaveHistory (s\<lparr>history := kept\<rparr>)))"

text \<open>
  \<^verbatim>\<open>runSync\<close> up to its await (lines 158-161). The first \<^verbatim>\<open>emitStatus()\<close> stands
  before the \<^verbatim>\<open>try\<close>: when it throws, neither \<^verbatim>\<open>catch\<close> nor \<^verbatim>\<open>finally\<close> runs, no
  run is in flight, and the promise of \<^verbatim>\<open>runSync\<close> is rejected.
\<close>

definition runSync_begin_x ::
  "receivers \<Rightarrow> string \<Rightarrow> string \<Rightarrow> service \<Rightarrow> service completion"
where
  "runSync_begin_x rc timestamp reason s =
     (case emitStatus_x rc (s\<lparr>running := True, state := Syncing\<rparr>) of
        Throws msg s1 \<Rightarrow> Throws msg s1
      | Returns s1 \<Rightarrow> Returns (s1\<lparr>inflight := inflight s1 @ [(reason, timestamp)]\<rparr>))"

text \<open>
  The rest of the \<^verbatim>\<open>try\<close> block (lines 184-210), once the awaited steps have ended
  with \<open>outcome\<close>; a thrown outcome leaves the block at once.
\<close>

definition run_try ::
  "receivers \<Rightarrow> string \<Rightarrow> string \<Rightarrow> outcome \<Rightarrow> service \<Rightarrow> service completion"
where
  "run_try rc timestamp reason outcome s =
     (case outcome of
        Inl msg \<Rightarrow> Throws msg s
      | Inr r \<Rightarrow>
          (case pushHistory_x rc (run_entry timestamp reason outcome)
                  (s\<lparr> lastRun := Some timestamp,
                      lastResult := Some (run_result reason outcome),
                      state := Idle \<rparr>) of
             Throws msg s1 \<Rightarrow> Throws msg s1
           | Returns s1 \<Rightarrow> deliver rc (run_log outcome) s1))"

text \<open>The \<^verbatim>\<open>catch\<close> block (lines 211-224), entered with the message of the error.\<close>

definition run_catch ::
  "receivers \<Rightarrow> string \<Rightarrow> string \<Rightarrow> string \<Rightarrow> service \<Rightarrow> service completion"
where
  "run_catch rc timestamp reason msg s =
     (case pushHistory_x rc (run_entry timestamp reason (Inl msg))
             (s\<lparr> lastRun := Some timestamp,
                 lastResult := Some (run_result reason (Inl msg)),
                 state := Error \<rparr>) of
        Throws m s1 \<Rightarrow> Throws m s1
      | Returns s1 \<Rightarrow> deliver rc (run_log (Inl msg)) s1)"

text \<open>
  The \<^verbatim>\<open>finally\<close> block (lines 225-228), entered with what the blocks before it
  completed with: an exception of its own replaces a pending one, otherwise a pending
  one goes on to the caller.
\<close>

definition run_finally :: "receivers \<Rightarrow> service completion \<Rightarrow> service completion" where
  "run_finally rc c =
     (case emitStatus_x rc ((state_after c)\<lparr>running := False\<rparr>) of
        Throws m s1 \<Rightarrow> Throws m s1
      | Returns s1 \<Rightarrow> (case c of Returns s0 \<Rightarrow> Returns s1 | Throws m s0 \<Rightarrow> Throws m s1))"

definition runSync_finish_x ::
  "receivers \<Rightarrow> string \<Rightarrow> string \<Rightarrow> outcome \<Rightarrow> service \<Rightarrow> service completion"
where
  "runSync_finish_x rc timestamp reason outcome s =
     (let tried = run_try rc timestamp reason outcome s;
          caught = (case tried of
                      Returns s1 \<Rightarrow> Returns s1
                    | Throws msg s1 \<Rightarrow> run_catch rc timestamp reason msg s1);
          settled = run_finally rc caught
      in map_completion (\<lambda>s3. s3\<lparr>inflight := remove1 (reason, timestamp) (inflight s3)\<rparr>)
           settled)"

text \<open>
  The whole of \<^verbatim>\<open>runSync\<close>, with nothing interleaved, from what the export ended with:
  \<open>None\<close> is a run that never settles, \<open>Throws\<close> one whose promise is rejected.
\<close>

definition runSync_x ::
  "receivers \<Rightarrow> string \<Rightarrow> string \<Rightarrow> string + export_paths \<Rightarrow> world \<Rightarrow> service
     \<Rightarrow> (service completion \<times> world) option"
where
  "runSync_x rc timestamp reason exported w s =
     (case runSync_begin_x rc timestamp reason s of
        Throws msg s1 \<Rightarrow> Some (Throws msg s1, w)
      | Returns s1 \<Rightarrow>
          (case pipeline (config s1) exported w of
             None \<Rightarrow> None
           | Some (outcome, w') \<Rightarrow>
               Some (runSync_finish_x rc timestamp reason outcome s1, w')))"

section \<open>Notions used to state the properties\<close>

text \<open>No receiver ever throws.\<close>

definition quiet :: "receivers \<Rightarrow> bool" where
  "quiet rc = (\<forall>sent e. rc sent e = None)"

text \<open>The last \<open>n\<close> elements of a list: the ones dropped are the oldest, at the front.\<close>

definition keep_last :: "nat \<Rightarrow> 'a list \<Rightarrow> 'a list" where
  "keep_last n xs = drop (length xs - n) xs"

text \<open>
  The timeouts that are set are exactly the one whose handle \<^verbatim>\<open>this.timer\<close> holds, if
  any. It holds of a new service and every event keeps it.
\<close>

definition timers_ok :: "service \<Rightarrow> bool" where
  "timers_ok s = (map fst (armed s) = (case timer s of None \<Rightarrow> [] | Some h \<Rightarrow> [h]))"

text \<open>
  The flag \<^verbatim>\<open>running\<close> tells whether a run is in flight, and at most one is.
\<close>

definition single_flight :: "service \<Rightarrow> bool" where
  "single_flight s = (length (inflight s) \<le> 1 \<and> running s = (inflight s \<noteq> []))"

text \<open>A file event the watcher reports, the reason its callback passes on, and the callback.\<close>

datatype file_event = Added string | Changed string

definition event_reason :: "file_event \<Rightarrow> string" where
  "event_reason e =
     (case e of Added p \<Rightarrow> ''file added: '' @ p | Changed p \<Rightarrow> ''file changed: '' @ p)"

definition on_file_event :: "string \<Rightarrow> file_event \<Rightarrow> service \<Rightarrow> service" where
  "on_file_event now e s = (case e of Added p \<Rightarrow> on_add now p s | Changed p \<Rightarrow> on_change now p s)"

text \<open>
  A trigger of either kind: a call of \<^verbatim>\<open>triggerSync\<close>, a call of \<^verbatim>\<open>scheduleRun\<close>, or
  a file event. \<open>trigger_log\<close> is what a trigger writes to the log while the service is
  paused.
\<close>

datatype trigger =
    Manual string "string option"
  | Scheduled string string bool
  | Watched string file_event

definition pull :: "trigger \<Rightarrow> service \<Rightarrow> service" where
  "pull t s =
     (case t of
        Manual now reason \<Rightarrow> triggerSync now reason s
      | Scheduled now reason immediate \<Rightarrow> scheduleRun now reason immediate s
      | Watched now e \<Rightarrow> on_file_event now e s)"

definition trigger_log :: "trigger \<Rightarrow> effect list" where
  "trigger_log t =
     (case t of
        Manual now reason \<Rightarrow> [LogWarn ''[sync] ignored trigger while paused'']
      | Scheduled now reason immediate \<Rightarrow> []
      | Watched now e \<Rightarrow>
          (case e of
             Added p \<Rightarrow> [LogInfo (''[watcher] file added '' @ p)]
           | Changed p \<Rightarrow> [LogInfo (''[watcher] file changed '' @ p)]))"




text \<open>The effects a subscriber or the history file sees; log lines are not among them.\<close>

definition is_broadcast :: "effect \<Rightarrow> bool" where
  "is_broadcast e =
     (case e of
        EmitStatus st \<Rightarrow> True
      | EmitHistory h \<Rightarrow> True
      | SaveHistory \<Rightarrow> True
      | _ \<Rightarrow> False)"

text \<open>The limit is a positive integer and the history list is within it.\<close>

definition history_ok :: "service \<Rightarrow> bool" where
  "history_ok s =
     (0 < historyLimit s \<and> historyLimit s \<in> \<int>
      \<and> of_nat (length (history s)) \<le> historyLimit s)"

subsection \<open>Concrete inputs\<close>

text \<open>A configuration that sets nothing, so that every default applies.\<close>

definition cfg0 :: config where
  "cfg0 = \<lparr> cfg_apiBaseUrl = None, cfg_apiUrl = None, cfg_apiToken = None,
            cfg_login = Undefined,
            cfg_tokenCachePath = None, cfg_watchFiles = None, cfg_debounceMs = None,
            cfg_historyLimit = None \<rparr>"

definition entry0 :: history_entry where
  "entry0 = \<lparr> he_timestamp = ''2026-01-01T00:00:00.000Z'', he_status = Success,
              he_reason = ''Startup Sync'', he_payloadHash = None, he_response = None,
              he_skippedReason = None, he_message = None \<rparr>"

definition outcome0 :: outcome where
  "outcome0 =
     Inr (''/out'',
          \<lparr> ur_status = Some 200, ur_body = None, ur_payloadHash = Some ''abc'',
            ur_skipped = False, ur_message = None, ur_reason = None \<rparr>)"

text \<open>A service whose \<^verbatim>\<open>start()\<close> found no history file and is now in its first run.\<close>

definition syncing0 :: service where
  "syncing0 = start_resume ''t0'' (ReadFailed True ''ENOENT'') (new_service cfg0)"

text \<open>One trigger of each kind.\<close>

definition triggers0 :: "trigger list" where
  "triggers0 =
     [Manual ''t1'' None, Watched ''t2'' (Changed ''a.tfx''), Scheduled ''t3'' ''x'' True]"

text \<open>Replies of the remote side, a world and the arguments of an upload.\<close>

definition unauthorized :: upload_response where
  "unauthorized = \<lparr> rs_status = 401, rs_payload = None \<rparr>"

definition accepted :: upload_response where
  "accepted = \<lparr> rs_status = 200,
                 rs_payload = Some \<lparr> b_status = Some ''ok'', b_message = Some ''synced'' \<rparr> \<rparr>"

text \<open>
  The cache holds a token the remote side no longer accepts; the remote side answers the
  first two uploads with 401 and accepts the third; every login succeeds.
\<close>

definition world1 :: world where
  "world1 =
     \<lparr> fs = (\<lambda>p. Inr ''csv''),
       token_cache = (\<lambda>p. if p = ''token.json'' then Some ''stale'' else None),
       upload_replies = (\<lambda>n. if n < 2 then Reply unauthorized else Reply accepted),
       login_replies = (\<lambda>n. Reply \<lparr> ls_status = 200, ls_token = Some ''fresh'' \<rparr>),
       uploads = [], logins = 0,
       digest = (\<lambda>buffers. ''5f2d''),
       url_parser = (\<lambda>relativePath base. Some (base @ relativePath)) \<rparr>"

definition args1 :: upload_args where
  "args1 =
     \<lparr> apiBaseUrl = None, apiToken = None,
       login = Given \<lparr> email = Some ''a@b.c'', password = Some ''pw'', device_name = None,
                       replace_existing = None \<rparr>,
       tokenCachePath = Some ''token.json'',
       files = \<lparr> student_course = Some ''StudentCourse.txt'',
                 student_timetable = Some ''StudentTimetable.txt'',
                 timetable = Some ''Timetable.txt'' \<rparr> \<rparr>"

text \<open>A world with no cached token and no network, and the paths of an export.\<close>

definition world0 :: world where
  "world0 =
     \<lparr> fs = (\<lambda>p. Inr ''csv''),
       token_cache = (\<lambda>p. None),
       upload_replies = (\<lambda>n. Rejects ''offline''),
       login_replies = (\<lambda>n. Rejects ''offline''),
       uploads = [], logins = 0,
       digest = (\<lambda>buffers. ''5f2d''),
       url_parser = (\<lambda>relativePath base. Some (base @ relativePath)) \<rparr>"

definition paths0 :: export_paths where
  "paths0 = \<lparr> studentCoursePath = ''generated/StudentCourse.txt'',
              studentTimetablePath = ''generated/StudentTimetable.txt'',
              timetablePath = ''generated/Timetable.txt'',
              outputDir = ''generated'' \<rparr>"

text \<open>
  A configuration with login credentials and a token cache, a remote side that answers
  every upload with 401, and a subscriber that throws on every status.
\<close>

definition cfg1 :: config where
  "cfg1 = cfg0\<lparr> cfg_login := Given \<lparr> email = Some ''a@b.c'', password = Some ''pw'',
                                       device_name = None, replace_existing = None \<rparr>,
                 cfg_tokenCachePath := Some ''token.json'' \<rparr>"

definition world401 :: world where
  "world401 = world1\<lparr>upload_replies := (\<lambda>n. Reply unauthorized)\<rparr>"

definition status_thrower :: receivers where
  "status_thrower sent e = (case e of EmitStatus st \<Rightarrow> Some ''boom'' | _ \<Rightarrow> None)"

text \<open>
  No token was supplied, the files can be read, there are login credentials, the remote
  side rejects every upload as unauthorized and every login succeeds.
\<close>

definition always_401 :: "upload_args \<Rightarrow> world \<Rightarrow> bool" where
  "always_401 a w =
     (\<not> truthy (apiToken a)
      \<and> truthy (student_course (files a)) \<and> truthy (student_timetable (files a))
      \<and> truthy (timetable (files a))
      \<and> (\<forall>p. case fs w p of Inl msg \<Rightarrow> False | Inr content \<Rightarrow> True)
      \<and> buildUrl w (base_url (apiBaseUrl a)) ''/api/login'' \<noteq> None
      \<and> buildUrl w (base_url (apiBaseUrl a)) ''/api/timetable-sync'' \<noteq> None
      \<and> (case login a of
            Given c \<Rightarrow> truthy (email c) \<and> truthy (password c)
          | _ \<Rightarrow> False)
      \<and> (\<forall>n. case upload_replies w n of Rejects msg \<Rightarrow> False | Reply r \<Rightarrow> rs_status r = 401)
      \<and> (\<forall>n. case login_replies w n of
                 Rejects msg \<Rightarrow> False
               | Reply r \<Rightarrow> ok (ls_status r) \<and> truthy (ls_token r)))"

text \<open>Two worlds with the same files, the same URL parser and the same remote side.\<close>

definition same_remote :: "world \<Rightarrow> world \<Rightarrow> bool" where
  "same_remote w w' =
     (fs w' = fs w \<and> url_parser w' = url_parser w
      \<and> upload_replies w' = upload_replies w \<and> login_replies w' = login_replies w)"

section \<open>Properties\<close>

subsection \<open>Title case\<close>

lemma split_sp_not_Nil: "split_sp s \<noteq> []"
  by (induction s) (auto simp: cons_first_def split: list.splits)

lemma join_sp_Cons: "join_sp ((c # w) # ws) = c # join_sp (w # ws)"
  by (cases ws) simp_all

lemma title_from_split:
  "title_from b s =
     (case split_sp s of
        [] \<Rightarrow> []
      | w # ws \<Rightarrow> join_sp ((if b then cap_word w else w) # map cap_word ws))"
proof (induction s arbitrary: b)
  case Nil
  show ?case by (simp add: cap_word_def)
next
  case (Cons c cs)
  obtain w ws where sp: "split_sp cs = w # ws"
    using split_sp_not_Nil [of cs] by (cases "split_sp cs") auto
  show ?case
  proof (cases "c = CHR '' ''")
    case True
    have "title_from b (c # cs) = c # title_from True cs"
      using True by simp
    also have "title_from True cs = join_sp (cap_word w # map cap_word ws)"
      using Cons.IH [of True] sp by simp
    finally show ?thesis
      using True sp by (simp add: cap_word_def)
  next
    case False
    have "title_from False cs = join_sp (w # map cap_word ws)"
      using Cons.IH [of False] sp by simp
    then show ?thesis
      using False sp by (simp add: cons_first_def cap_word_def join_sp_Cons)
  qed
qed

lemma capitalizeReason_title_case: "capitalizeReason s = title_case s"
proof (cases "split_sp s")
  case Nil
  then show ?thesis using split_sp_not_Nil [of s] by simp
next
  case (Cons w ws)
  then show ?thesis
    using title_from_split [of True s]
    by (cases s) (simp_all add: capitalizeReason_def title_case_def)
qed

lemma length_title_from: "length (title_from b s) = length s"
  by (induction s arbitrary: b) auto

subsection \<open>The history list\<close>

lemma length_keep_last: "length (keep_last n xs) \<le> n"
  by (simp add: keep_last_def)

lemma length_keep_last_int: "0 \<le> m \<Longrightarrow> int (length (keep_last (nat m) xs)) \<le> m"
  using length_keep_last [of "nat m" xs] by linarith

lemma keep_last_all: "length xs \<le> n \<Longrightarrow> keep_last n xs = xs"
  by (simp add: keep_last_def)

lemma keep_last_last:
  assumes "0 < n" "xs \<noteq> []"
  shows "keep_last n xs \<noteq> [] \<and> last (keep_last n xs) = last xs"
proof -
  have "length xs - n < length xs" using assms by (cases xs) auto
  then show ?thesis by (simp add: keep_last_def)
qed

lemma keep_last_snoc:
  "0 < n \<Longrightarrow> keep_last n (xs @ [x]) = drop (Suc (length xs) - n) xs @ [x]"
  by (simp add: keep_last_def)

text \<open>
  What \<^verbatim>\<open>splice(0, length - limit)\<close> leaves when the length is above a limit that is
  not negative: the last \<open>\<lceil>limit\<rceil>\<close> elements, which for a fractional limit is one more
  than the limit allows.
\<close>

lemma js_splice0_keep_last:
  assumes "0 \<le> limit" "of_nat (length xs) > limit"
  shows "js_splice0 (of_nat (length xs) - limit) xs = keep_last (nat \<lceil>limit\<rceil>) xs"
proof -
  have pos: "0 \<le> of_nat (length xs) - limit" using assms by simp
  have "\<lfloor>of_int (int (length xs)) - limit\<rfloor> = int (length xs) - \<lceil>limit\<rceil>"
    using int_add_floor [of "int (length xs)" "- limit"] by (simp add: ceiling_def)
  then have cut: "js_trunc (of_nat (length xs) - limit) = int (length xs) - \<lceil>limit\<rceil>"
    using pos by (simp add: js_trunc_def)
  have up: "\<lceil>limit\<rceil> \<le> int (length xs)"
    using assms(2) by (simp add: ceiling_le_iff)
  have lo: "0 \<le> \<lceil>limit\<rceil>"
    using assms(1) by (simp add: le_ceiling_iff)
  show ?thesis
    using up lo by (simp add: js_splice0_def cut keep_last_def nat_diff_distrib' max_def min_def)
qed

lemma evict_keep_last:
  assumes "0 \<le> limit"
  shows "(if of_nat (length xs) > limit then js_splice0 (of_nat (length xs) - limit) xs else xs)
         = keep_last (nat \<lceil>limit\<rceil>) xs"
proof (cases "of_nat (length xs) > limit")
  case True
  then show ?thesis using assms by (simp add: js_splice0_keep_last)
next
  case False
  then have "of_int (int (length xs)) \<le> limit" by simp
  then have "int (length xs) \<le> \<lceil>limit\<rceil>" by (simp add: le_ceiling_iff)
  then have "length xs \<le> nat \<lceil>limit\<rceil>" by simp
  then show ?thesis using False by (simp add: keep_last_all)
qed

text \<open>
  What \<^verbatim>\<open>slice(-limit)\<close> leaves when the limit is at least 1: the last \<open>\<lfloor>limit\<rfloor>\<close>
  elements.
\<close>

lemma js_slice_from_keep_last:
  assumes "1 \<le> limit"
  shows "js_slice_from (- limit) xs = keep_last (nat \<lfloor>limit\<rfloor>) xs"
proof -
  have "\<lceil>- limit\<rceil> = - \<lfloor>limit\<rfloor>" by (simp add: ceiling_def)
  moreover have "1 \<le> \<lfloor>limit\<rfloor>" using assms by (simp add: le_floor_iff)
  ultimately show ?thesis
    using assms
    by (auto simp: js_slice_from_def js_trunc_def keep_last_def Let_def max_def
          nat_diff_distrib')
qed

lemma positive_integer:
  assumes "0 < (limit :: rat)" "limit \<in> \<int>"
  shows "1 \<le> limit" "\<lceil>limit\<rceil> = \<lfloor>limit\<rfloor>" "of_int \<lfloor>limit\<rfloor> = limit" "0 < \<lfloor>limit\<rfloor>"
proof -
  obtain m where m: "limit = of_int m" using assms(2) by (auto elim: Ints_cases)
  then have "0 < m" using assms(1) by simp
  then show "1 \<le> limit" "\<lceil>limit\<rceil> = \<lfloor>limit\<rfloor>" "of_int \<lfloor>limit\<rfloor> = limit" "0 < \<lfloor>limit\<rfloor>"
    using m by simp_all
qed

lemma history_pushHistory:
  "history (pushHistory entry s) =
     (if of_nat (length (history s @ [entry])) > historyLimit s
      then js_splice0 (of_nat (length (history s @ [entry])) - historyLimit s)
             (history s @ [entry])
      else history s @ [entry])"
  by (simp add: pushHistory_def emit_def Let_def del: length_append of_nat_Suc)

lemma pushHistory_keep_last:
  assumes "0 \<le> historyLimit s"
  shows "history (pushHistory entry s)
           = keep_last (nat \<lceil>historyLimit s\<rceil>) (history s @ [entry])"
  unfolding history_pushHistory using assms by (rule evict_keep_last)

lemma pushHistory_last:
  assumes "0 < historyLimit s"
  shows "history (pushHistory entry s) \<noteq> [] \<and> last (history (pushHistory entry s)) = entry"
proof -
  have "0 < \<lceil>historyLimit s\<rceil>" using assms by (simp add: less_ceiling_iff)
  then show ?thesis
    using assms keep_last_last [of "nat \<lceil>historyLimit s\<rceil>" "history s @ [entry]"]
    by (simp add: pushHistory_keep_last)
qed

lemma pushHistory_suffix: "\<exists>k. history (pushHistory entry s) = drop k (history s @ [entry])"
  unfolding history_pushHistory js_splice0_def by (metis drop_0)

lemma pushHistory_bound:
  assumes "0 < historyLimit s" "historyLimit s \<in> \<int>"
  shows "of_nat (length (history (pushHistory entry s))) \<le> historyLimit s"
proof -
  note pi = positive_integer [OF assms]
  have "int (length (keep_last (nat \<lfloor>historyLimit s\<rfloor>) (history s @ [entry])))
          \<le> \<lfloor>historyLimit s\<rfloor>"
    using pi(4) by (intro length_keep_last_int) simp
  then have "int (length (history (pushHistory entry s))) \<le> \<lfloor>historyLimit s\<rfloor>"
    using assms(1) pi(2) by (simp add: pushHistory_keep_last)
  then show ?thesis by (simp add: le_floor_iff)
qed

lemma loadHistory_bound:
  assumes "0 < historyLimit s" "historyLimit s \<in> \<int>"
    and "of_nat (length (history s)) \<le> historyLimit s"
  shows "of_nat (length (history (loadHistory rd s))) \<le> historyLimit s"
proof (cases rd)
  case (Parsed parsed)
  note pi = positive_integer [OF assms(1,2)]
  have "int (length (keep_last (nat \<lfloor>historyLimit s\<rfloor>) parsed)) \<le> \<lfloor>historyLimit s\<rfloor>"
    using pi(4) by (intro length_keep_last_int) simp
  then have "int (length (history (loadHistory rd s))) \<le> \<lfloor>historyLimit s\<rfloor>"
    using Parsed pi(1) by (simp add: loadHistory_def js_slice_from_keep_last)
  then show ?thesis by (simp add: le_floor_iff)
qed (use assms in \<open>simp_all add: loadHistory_def emit_def\<close>)

text \<open>
  The constructor never produces the limit 0, and it produces a positive integer unless
  a negative or a fractional limit is configured.
\<close>

lemma new_service_limit:
  "historyLimit (new_service cfg) \<noteq> 0"
  "(case cfg_historyLimit cfg of None \<Rightarrow> True | Some n \<Rightarrow> 0 \<le> n \<and> n \<in> \<int>) \<Longrightarrow>
     0 < historyLimit (new_service cfg) \<and> historyLimit (new_service cfg) \<in> \<int>"
  by (auto simp: new_service_def number_or_def DEFAULT_HISTORY_LIMIT_def split: option.splits)

subsection \<open>The two halves of a run\<close>

lemma runSync_finish_fields:
  "state (runSync_finish ts reason outcome s) = (case outcome of Inr r \<Rightarrow> Idle | Inl msg \<Rightarrow> Error)"
  "running (runSync_finish ts reason outcome s) = False"
  "lastRun (runSync_finish ts reason outcome s) = Some ts"
  "lastResult (runSync_finish ts reason outcome s) = Some (run_result reason outcome)"
  "history (runSync_finish ts reason outcome s) =
     history (pushHistory (run_entry ts reason outcome) s)"
  "historyLimit (runSync_finish ts reason outcome s) = historyLimit s"
  "inflight (runSync_finish ts reason outcome s) = remove1 (reason, ts) (inflight s)"
  "paused (runSync_finish ts reason outcome s) = paused s"
  "timer (runSync_finish ts reason outcome s) = timer s"
  "armed (runSync_finish ts reason outcome s) = armed s"
  "pendingReason (runSync_finish ts reason outcome s) = pendingReason s"
  "watcher (runSync_finish ts reason outcome s) = watcher s"
  "debounceMs (runSync_finish ts reason outcome s) = debounceMs s"
  "next_handle (runSync_finish ts reason outcome s) = next_handle s"
  by (simp_all add: runSync_finish_def pushHistory_def emit_def emitStatus_def Let_def)

lemma runSync_finish_effects:
  "effects (runSync_finish ts reason outcome s) =
     effects s @ [SaveHistory,
                  EmitHistory (history (runSync_finish ts reason outcome s)),
                  run_log outcome,
                  EmitStatus (getStatus (runSync_finish ts reason outcome s))]"
  by (simp add: runSync_finish_def pushHistory_def emit_def emitStatus_def Let_def getStatus_def)

lemma runSync_begin_fields:
  "state (runSync_begin ts reason s) = Syncing"
  "running (runSync_begin ts reason s) = True"
  "inflight (runSync_begin ts reason s) = inflight s @ [(reason, ts)]"
  "history (runSync_begin ts reason s) = history s"
  "historyLimit (runSync_begin ts reason s) = historyLimit s"
  "lastRun (runSync_begin ts reason s) = lastRun s"
  "lastResult (runSync_begin ts reason s) = lastResult s"
  "paused (runSync_begin ts reason s) = paused s"
  "timer (runSync_begin ts reason s) = timer s"
  "armed (runSync_begin ts reason s) = armed s"
  "pendingReason (runSync_begin ts reason s) = pendingReason s"
  "watcher (runSync_begin ts reason s) = watcher s"
  "debounceMs (runSync_begin ts reason s) = debounceMs s"
  "next_handle (runSync_begin ts reason s) = next_handle s"
  "effects (runSync_begin ts reason s) =
     effects s @ [EmitStatus ((getStatus s)\<lparr>st_state := Syncing, st_running := True\<rparr>)]"
  by (simp_all add: runSync_begin_def emit_def emitStatus_def Let_def getStatus_def)

lemma run_entry_fields:
  "he_reason (run_entry ts reason outcome) = capitalizeReason reason"
  "he_timestamp (run_entry ts reason outcome) = ts"
  "he_status (run_entry ts reason outcome) = lr_status (run_result reason outcome)"
  by (simp_all add: run_entry_def run_result_def split: sum.splits prod.splits)

subsection \<open>Timers and scheduling\<close>

lemma new_service_ok:
  "\<not> paused (new_service cfg)" "\<not> running (new_service cfg)" "timers_ok (new_service cfg)"
  "inflight (new_service cfg) = []" "armed (new_service cfg) = []" "next_handle (new_service cfg) = 0"
  "state (new_service cfg) = Idle" "history (new_service cfg) = []"
  by (simp_all add: new_service_def timers_ok_def)

lemma arm_timer_fields:
  "timer (arm_timer s) = Some (next_handle s)"
  "armed (arm_timer s) = armed s @ [(next_handle s, debounceMs s)]"
  "next_handle (arm_timer s) = Suc (next_handle s)"
  "pendingReason (arm_timer s) = pendingReason s"
  "inflight (arm_timer s) = inflight s"
  "running (arm_timer s) = running s"
  "paused (arm_timer s) = paused s"
  "state (arm_timer s) = state s"
  "history (arm_timer s) = history s"
  "lastRun (arm_timer s) = lastRun s"
  "lastResult (arm_timer s) = lastResult s"
  "debounceMs (arm_timer s) = debounceMs s"
  "effects (arm_timer s) = effects s"
  "watcher (arm_timer s) = watcher s"
  "historyLimit (arm_timer s) = historyLimit s"
  by (simp_all add: arm_timer_def)

lemma cancel_timer_fields:
  "timer (cancel_timer s) = None"
  "next_handle (cancel_timer s) = next_handle s"
  "pendingReason (cancel_timer s) = pendingReason s"
  "inflight (cancel_timer s) = inflight s"
  "running (cancel_timer s) = running s"
  "paused (cancel_timer s) = paused s"
  "state (cancel_timer s) = state s"
  "history (cancel_timer s) = history s"
  "lastRun (cancel_timer s) = lastRun s"
  "lastResult (cancel_timer s) = lastResult s"
  "debounceMs (cancel_timer s) = debounceMs s"
  "effects (cancel_timer s) = effects s"
  "watcher (cancel_timer s) = watcher s"
  "historyLimit (cancel_timer s) = historyLimit s"
  by (simp_all add: cancel_timer_def clearTimeout_def split: option.splits)

lemma cancel_timer_armed: "timers_ok s \<Longrightarrow> armed (cancel_timer s) = []"
  by (auto simp: cancel_timer_def clearTimeout_def timers_ok_def split: option.splits)

lemma clear_own_timer:
  "timers_ok s \<Longrightarrow> timer s = Some h \<Longrightarrow> armed (clearTimeout h s) = []"
  by (auto simp: clearTimeout_def timers_ok_def)

lemma processQueue_busy:
  assumes "running s \<or> paused s"
  shows "processQueue now s = arm_timer s"
  using assms by (simp add: processQueue_def)

lemma processQueue_free:
  assumes "\<not> running s" "\<not> paused s"
  shows "processQueue now s =
           runSync_begin now (pending_or_default (pendingReason s))
             (s\<lparr>pendingReason := None, timer := None\<rparr>)"
  using assms by (simp add: processQueue_def Let_def)




lemma timer_fires_free:
  assumes "\<not> running s" "\<not> paused s" "armed s = [(h, d)]"
  shows "step (TimerFires ts h) s =
           Some (runSync_begin ts (pending_or_default (pendingReason s))
                   ((clearTimeout h s)\<lparr>pendingReason := None, timer := None\<rparr>))"
  using assms by (simp add: step_def processQueue_def clearTimeout_def Let_def)

lemma timer_fires_busy:
  assumes "running s \<or> paused s" "armed s = [(h, d)]"
  shows "step (TimerFires ts h) s = Some (arm_timer (clearTimeout h s))"
  using assms by (auto simp add: step_def processQueue_def clearTimeout_def)


lemma event_reason_not_empty: "pending_or_default (Some (event_reason e)) = event_reason e"
  by (cases e) (simp_all add: pending_or_default_def event_reason_def)

lemma triggerSync_free:
  assumes "\<not> paused s" "\<not> running s" "timers_ok s"
  shows "triggerSync now reason s =
           runSync_begin now
             (pending_or_default (Some (case reason of None \<Rightarrow> ''manual trigger'' | Some r \<Rightarrow> r)))
             ((cancel_timer (s\<lparr>pendingReason := Some (case reason of None \<Rightarrow> ''manual trigger'' | Some r \<Rightarrow> r)\<rparr>))
                \<lparr>pendingReason := None, timer := None\<rparr>)"
  using assms
  by (simp add: triggerSync_def scheduleRun_def processQueue_def Let_def cancel_timer_fields)

lemma triggerSync_busy:
  assumes "\<not> paused s" "running s"
  shows "triggerSync now reason s =
           arm_timer (cancel_timer (s\<lparr>pendingReason := Some (case reason of None \<Rightarrow> ''manual trigger'' | Some r \<Rightarrow> r)\<rparr>))"
  using assms
  by (simp add: triggerSync_def scheduleRun_def processQueue_def Let_def cancel_timer_fields)

lemma timers_ok_pending: "timers_ok (s\<lparr>pendingReason := p\<rparr>) = timers_ok s"
  by (simp add: timers_ok_def)




subsection \<open>Triggers while paused\<close>

lemma pull_paused:
  assumes "paused s"
  shows "pull t s = s\<lparr>effects := effects s @ trigger_log t\<rparr>"
proof (cases t)
  case (Manual now reason)
  then show ?thesis using assms by (simp add: pull_def triggerSync_def emit_def trigger_log_def)
next
  case (Scheduled now reason immediate)
  then show ?thesis using assms by (simp add: pull_def scheduleRun_def trigger_log_def)
next
  case (Watched now e)
  then show ?thesis
    using assms
    by (cases e)
       (simp_all add: pull_def on_file_event_def on_add_def on_change_def scheduleRun_def
          emit_def trigger_log_def)
qed

lemma pulls_paused:
  "paused s \<Longrightarrow> fold pull ts s = s\<lparr>effects := effects s @ concat (map trigger_log ts)\<rparr>"
proof (induction ts arbitrary: s)
  case Nil
  then show ?case by simp
next
  case (Cons t ts)
  have "paused (pull t s)" using Cons.prems by (simp add: pull_paused)
  from Cons.IH [OF this] show ?case
    using Cons.prems by (simp add: pull_paused)
qed

lemma trigger_log_quiet: "filter is_broadcast (trigger_log t) = []"
  by (cases t) (auto simp: trigger_log_def is_broadcast_def split: file_event.splits)

lemma trigger_logs_quiet: "filter is_broadcast (concat (map trigger_log ts)) = []"
  by (induction ts) (simp_all add: trigger_log_quiet)

subsection \<open>Stopping, and what every event keeps\<close>

lemma syncing0_fields:
  "state syncing0 = Syncing" "running syncing0" "\<not> paused syncing0" "timers_ok syncing0"
  "inflight syncing0 = [(''Startup Sync'', ''t0'')]" "armed syncing0 = []" "timer syncing0 = None"
  "next_handle syncing0 = 0" "debounceMs syncing0 = 2000" "watcher syncing0"
  "historyLimit syncing0 = 50" "history syncing0 = []"
  by (simp_all add: syncing0_def start_resume_def runSync_begin_fields setupWatcher_def
        loadHistory_def new_service_def cfg0_def timers_ok_def number_or_def
        DEFAULT_HISTORY_LIMIT_def)

lemma stop_fields:
  "state (stop s) = Stopped"
  "watcher (stop s) = False"
  "timer (stop s) = None"
  "inflight (stop s) = inflight s"
  "running (stop s) = running s"
  "paused (stop s) = paused s"
  "history (stop s) = history s"
  "historyLimit (stop s) = historyLimit s"
  "lastRun (stop s) = lastRun s"
  "lastResult (stop s) = lastResult s"
  "pendingReason (stop s) = pendingReason s"
  "last (effects (stop s)) = EmitStatus (getStatus (stop s))"
  by (simp_all add: stop_def emitStatus_def emit_def closeWatcher_def cancel_timer_def
        clearTimeout_def getStatus_def split: option.splits)

lemma stop_armed: "timers_ok s \<Longrightarrow> armed (stop s) = []"
  by (auto simp add: stop_def emitStatus_def emit_def closeWatcher_def cancel_timer_def
        clearTimeout_def timers_ok_def split: option.splits)

lemma timer_fires_during_run:
  assumes "running s" "armed s = [(h, d)]"
  shows "step (TimerFires ts h) s = Some (arm_timer (clearTimeout h s))
     \<and> inflight (arm_timer (clearTimeout h s)) = inflight s
     \<and> pendingReason (arm_timer (clearTimeout h s)) = pendingReason s
     \<and> armed (arm_timer (clearTimeout h s)) = [(next_handle s, debounceMs s)]
     \<and> timer (arm_timer (clearTimeout h s)) = Some (next_handle s)"
  using assms timer_fires_busy [of s h d ts]
  by (simp add: arm_timer_fields clearTimeout_def)

lemma timers_ok_emit: "timers_ok (emit e s) = timers_ok s"
  by (simp add: timers_ok_def emit_def)

lemma timers_ok_scheduleRun:
  assumes "timers_ok s"
  shows "timers_ok (scheduleRun now reason immediate s)"
  using assms
  by (auto simp: scheduleRun_def processQueue_def arm_timer_def cancel_timer_def clearTimeout_def
        runSync_begin_def emitStatus_def emit_def timers_ok_def Let_def split: option.splits)

lemma timers_ok_step:
  assumes "timers_ok s" "step ev s = Some s'"
  shows "timers_ok s'"
proof (cases ev)
  case (StartResumes now rd)
  then show ?thesis
    using assms
    by (auto simp: step_def start_resume_def runSync_begin_def emitStatus_def emit_def
          setupWatcher_def loadHistory_def timers_ok_def Let_def split: history_read.splits)
next
  case Stops
  then show ?thesis
    using assms stop_armed [of s] by (auto simp: step_def timers_ok_def stop_fields)
next
  case PauseCalled
  then show ?thesis using assms by (auto simp: step_def pause_begin_def timers_ok_def)
next
  case PauseResumes
  then show ?thesis
    using assms
    by (auto simp: step_def pause_finish_def emitStatus_def emit_def closeWatcher_def timers_ok_def)
next
  case Resumes
  then show ?thesis
    using assms
    by (auto simp: step_def resume_def emitStatus_def emit_def setupWatcher_def timers_ok_def)
next
  case (Triggered now reason)
  then show ?thesis
    using assms timers_ok_scheduleRun [of s]
    by (auto simp: step_def triggerSync_def timers_ok_emit)
next
  case (FileAdded now p)
  then show ?thesis
    using assms timers_ok_scheduleRun [of "emit (LogInfo (''[watcher] file added '' @ p)) s"]
    by (auto simp: step_def on_add_def timers_ok_emit split: if_splits)
next
  case (FileChanged now p)
  then show ?thesis
    using assms timers_ok_scheduleRun [of "emit (LogInfo (''[watcher] file changed '' @ p)) s"]
    by (auto simp: step_def on_change_def timers_ok_emit split: if_splits)
next
  case (FileRemoved p)
  then show ?thesis
    using assms by (auto simp: step_def on_unlink_def timers_ok_emit split: if_splits)
next
  case (TimerFires now h)
  then show ?thesis
    using assms
    by (auto simp: step_def processQueue_def arm_timer_def clearTimeout_def runSync_begin_def
          emitStatus_def emit_def timers_ok_def Let_def split: if_splits option.splits)
next
  case (RunSettles ts reason outcome)
  then show ?thesis
    using assms by (auto simp: step_def timers_ok_def runSync_finish_fields split: if_splits)
qed

text \<open>
  Every event but the resumption of \<^verbatim>\<open>start()\<close> keeps the service single-flight:
  \<^verbatim>\<open>processQueue\<close> is the only other place that starts a run, and it starts none while
  \<^verbatim>\<open>running\<close> is set.
\<close>

lemma single_flight_emit: "single_flight (emit e s) = single_flight s"
  by (simp add: single_flight_def emit_def)

lemma single_flight_scheduleRun:
  assumes "single_flight s"
  shows "single_flight (scheduleRun now reason immediate s)"
  using assms
  by (auto simp: scheduleRun_def processQueue_def arm_timer_def cancel_timer_def clearTimeout_def
        runSync_begin_def emitStatus_def emit_def single_flight_def Let_def split: option.splits)

lemma single_flight_step:
  assumes "single_flight s" "step ev s = Some s'" "\<nexists>now rd. ev = StartResumes now rd"
  shows "single_flight s'"
proof (cases ev)
  case (StartResumes now rd)
  then show ?thesis using assms(3) by simp
next
  case Stops
  then show ?thesis
    using assms by (auto simp: step_def single_flight_def stop_fields)
next
  case PauseCalled
  then show ?thesis using assms by (auto simp: step_def pause_begin_def single_flight_def)
next
  case PauseResumes
  then show ?thesis
    using assms
    by (auto simp: step_def pause_finish_def emitStatus_def emit_def closeWatcher_def
          single_flight_def split: if_splits)
next
  case Resumes
  then show ?thesis
    using assms
    by (auto simp: step_def resume_def emitStatus_def emit_def setupWatcher_def
          single_flight_def split: if_splits)
next
  case (Triggered now reason)
  then show ?thesis
    using assms single_flight_scheduleRun [of s]
    by (auto simp: step_def triggerSync_def single_flight_emit)
next
  case (FileAdded now p)
  then show ?thesis
    using assms single_flight_scheduleRun [of "emit (LogInfo (''[watcher] file added '' @ p)) s"]
    by (auto simp: step_def on_add_def single_flight_emit split: if_splits)
next
  case (FileChanged now p)
  then show ?thesis
    using assms single_flight_scheduleRun [of "emit (LogInfo (''[watcher] file changed '' @ p)) s"]
    by (auto simp: step_def on_change_def single_flight_emit split: if_splits)
next
  case (FileRemoved p)
  then show ?thesis
    using assms by (auto simp: step_def on_unlink_def single_flight_emit split: if_splits)
next
  case (TimerFires now h)
  then show ?thesis
    using assms
    by (auto simp: step_def processQueue_def arm_timer_def clearTimeout_def runSync_begin_def
          emitStatus_def emit_def single_flight_def Let_def split: if_splits)
next
  case (RunSettles ts reason outcome)
  then show ?thesis
    using assms
    by (cases "inflight s")
       (auto simp: step_def single_flight_def runSync_finish_fields split: if_splits)
qed

subsection \<open>The upload\<close>

lemmas upload_defs =
  upload_attempt_def send_upload_def resolve_token_def loginForToken_def getCachedToken_def
  cacheToken_def clearCachedToken_def response_result_def skipped_result_def truthy_def
  js_or_def ok_def buildUrl_def base_url_def Let_def

lemma base_url_idem: "base_url (Some (base_url u)) = base_url u"
  by (simp add: base_url_def split: option.splits)

lemma buildUrl_same_remote: "same_remote w w' \<Longrightarrow> buildUrl w' b r = buildUrl w b r"
  by (simp add: same_remote_def buildUrl_def)

lemma upload_no_token:
  assumes "\<not> truthy (apiToken a)"
    and "getCachedToken (tokenCachePath a) w = None"
    and "buildUrl w (base_url (apiBaseUrl a)) ''/api/login'' \<noteq> None"
    and "case login a of
           Undefined \<Rightarrow> True
         | Null \<Rightarrow> False
         | Given c \<Rightarrow> \<not> (truthy (email c) \<and> truthy (password c))"
    and "student_course (files a) = Some p1" "p1 \<noteq> []"
    and "student_timetable (files a) = Some p2" "p2 \<noteq> []"
    and "timetable (files a) = Some p3" "p3 \<noteq> []"
    and "read_all w [p1, p2, p3] = Inr buffers"
  shows "uploadTimetable a w = Some (Inr (skipped_result ''no token''), w)"
proof -
  have "loginForToken (base_url (apiBaseUrl a)) (login a) (tokenCachePath a) w = (Inr None, w)"
    using assms(3,4) by (auto simp: loginForToken_def split: js_arg.splits option.splits)
  then have tok: "resolve_token (base_url (apiBaseUrl a)) a w = (Inr None, w)"
    using assms(1,2) by (simp add: resolve_token_def truthy_def)
  have "upload_attempt a w = (Returned (skipped_result ''no token''), w)"
    using assms(5-11) tok
    by (simp add: upload_attempt_def Let_def truthy_def)
  then show ?thesis
    by (subst uploadTimetable.simps) simp
qed

text \<open>With a base URL that \<^verbatim>\<open>new URL\<close> refuses, the same call throws instead.\<close>

lemma upload_invalid_url:
  assumes "\<not> truthy (apiToken a)"
    and "getCachedToken (tokenCachePath a) w = None"
    and "buildUrl w (base_url (apiBaseUrl a)) ''/api/login'' = None"
    and "student_course (files a) = Some p1" "p1 \<noteq> []"
    and "student_timetable (files a) = Some p2" "p2 \<noteq> []"
    and "timetable (files a) = Some p3" "p3 \<noteq> []"
    and "read_all w [p1, p2, p3] = Inr buffers"
  shows "uploadTimetable a w = Some (Inl ''Invalid URL'', w)"
proof -
  have "loginForToken (base_url (apiBaseUrl a)) (login a) (tokenCachePath a) w
          = (Inl ''Invalid URL'', w)"
    using assms(3) by (simp add: loginForToken_def)
  then have tok: "resolve_token (base_url (apiBaseUrl a)) a w = (Inl ''Invalid URL'', w)"
    using assms(1,2) by (simp add: resolve_token_def truthy_def)
  have "upload_attempt a w = (Threw ''Invalid URL'', w)"
    using assms(4-10) tok
    by (simp add: upload_attempt_def Let_def truthy_def)
  then show ?thesis
    by (subst uploadTimetable.simps) simp
qed

lemma read_all_ok:
  assumes "\<forall>p. case fs w p of Inl msg \<Rightarrow> False | Inr content \<Rightarrow> True"
  shows "\<exists>bs. read_all w ps = Inr bs"
proof (induction ps)
  case Nil
  then show ?case by simp
next
  case (Cons p ps)
  then obtain bs where "read_all w ps = Inr bs" by blast
  moreover obtain c where "fs w p = Inr c"
    using assms spec [OF assms, of p] by (cases "fs w p") auto
  ultimately show ?case by simp
qed

lemma resolve_token_always_401:
  assumes "always_401 a w"
  shows "\<exists>t w1. resolve_token (base_url (apiBaseUrl a)) a w = (Inr (Some t), w1)
                \<and> t \<noteq> [] \<and> same_remote w w1"
proof (cases "truthy (getCachedToken (tokenCachePath a) w)")
  case True
  then obtain t where "getCachedToken (tokenCachePath a) w = Some t" "t \<noteq> []"
    by (auto simp: truthy_def split: option.splits)
  then show ?thesis
    using assms True by (simp add: resolve_token_def always_401_def same_remote_def)
next
  case False
  obtain c where c: "login a = Given c" "truthy (email c)" "truthy (password c)"
    using assms by (auto simp: always_401_def split: js_arg.splits)
  obtain e where e: "buildUrl w (base_url (apiBaseUrl a)) ''/api/login'' = Some e"
    using assms by (auto simp: always_401_def)
  have every: "\<forall>n. case login_replies w n of
                 Rejects msg \<Rightarrow> False
               | Reply r \<Rightarrow> ok (ls_status r) \<and> truthy (ls_token r)"
    using assms by (simp add: always_401_def)
  obtain r where r: "login_replies w (logins w) = Reply r" "ok (ls_status r)" "truthy (ls_token r)"
    using spec [OF every, of "logins w"] by (cases "login_replies w (logins w)") auto
  then obtain t where t: "ls_token r = Some t" "t \<noteq> []"
    by (auto simp: truthy_def split: option.splits)
  have na: "\<not> truthy (apiToken a)" using assms by (simp add: always_401_def)
  show ?thesis
    using na False c e r t
    by (auto simp: resolve_token_def loginForToken_def same_remote_def Let_def
          cacheToken_def split: option.splits)
qed

lemma send_upload_always_401:
  assumes "\<not> truthy (apiToken a)"
    and "\<forall>n. case upload_replies w n of Rejects msg \<Rightarrow> False | Reply r \<Rightarrow> rs_status r = 401"
  shows "\<exists>w'. send_upload a b hash t w = (Retry (a\<lparr>apiBaseUrl := Some b, apiToken := None\<rparr>), w')
              \<and> same_remote w w'"
proof -
  obtain r where "upload_replies w (length (uploads w)) = Reply r" "rs_status r = 401"
    using spec [OF assms(2), of "length (uploads w)"]
    by (cases "upload_replies w (length (uploads w))") auto
  then show ?thesis
    using assms(1)
    by (auto simp: send_upload_def Let_def same_remote_def clearCachedToken_def
          split: option.splits)
qed

lemma always_401_retry:
  assumes "always_401 a w"
  shows "\<exists>a' w'. upload_attempt a w = (Retry a', w') \<and> always_401 a' w'"
proof -
  let ?b = "base_url (apiBaseUrl a)"
  obtain bs where bs: "read_all w (map (\<lambda>e. case snd e of None \<Rightarrow> [] | Some p \<Rightarrow> p)
      [(''student_course'', student_course (files a)),
       (''student_timetable'', student_timetable (files a)),
       (''timetable'', timetable (files a))]) = Inr bs"
    using assms read_all_ok unfolding always_401_def by blast
  obtain t w1 where tok: "resolve_token ?b a w = (Inr (Some t), w1)" "t \<noteq> []" "same_remote w w1"
    using resolve_token_always_401 [OF assms] by blast
  have w1: "\<forall>n. case upload_replies w1 n of Rejects msg \<Rightarrow> False | Reply r \<Rightarrow> rs_status r = 401"
    using assms tok(3) by (simp add: always_401_def same_remote_def)
  obtain e where e: "buildUrl w1 ?b ''/api/timetable-sync'' = Some e"
    using assms buildUrl_same_remote [OF tok(3)] by (auto simp: always_401_def)
  have na: "\<not> truthy (apiToken a)" using assms by (simp add: always_401_def)
  obtain w' where sent:
    "send_upload a ?b (digest w bs) t w1 = (Retry (a\<lparr>apiBaseUrl := Some ?b, apiToken := None\<rparr>), w')"
    "same_remote w1 w'"
    using send_upload_always_401 [OF na w1] by blast
  have att: "upload_attempt a w = (Retry (a\<lparr>apiBaseUrl := Some ?b, apiToken := None\<rparr>), w')"
    using assms bs tok e sent(1)
    unfolding upload_attempt_def Let_def
    by (simp add: always_401_def)
  have both: "same_remote w w'"
    using tok(3) sent(2) by (simp add: same_remote_def)
  have "always_401 (a\<lparr>apiBaseUrl := Some ?b, apiToken := None\<rparr>) w'"
    using assms both buildUrl_same_remote [OF both]
    by (simp add: always_401_def same_remote_def truthy_def base_url_idem)
  with att show ?thesis by blast
qed

text \<open>
  Nothing bounds the retries: as long as the remote side answers 401 and a login yields a
  token, \<^verbatim>\<open>uploadTimetable\<close> calls itself again, and if that never changes it never
  settles.
\<close>

lemma upload_never_settles_under_401:
  assumes "always_401 a w"
  shows "uploadTimetable a w = None"
proof (rule ccontr)
  assume "uploadTimetable a w \<noteq> None"
  then obtain y where y: "uploadTimetable a w = Some y" by auto
  have "\<not> always_401 a w"
  proof (induction rule: uploadTimetable.raw_induct [OF _ y])
    case (1 f a w y)
    show ?case
    proof
      assume inv: "always_401 a w"
      then obtain a' w' where r: "upload_attempt a w = (Retry a', w')" "always_401 a' w'"
        using always_401_retry by blast
      with 1(2) have "f a' w' = Some y" by simp
      from 1(1) [OF this] r(2) show False by simp
    qed
  qed
  with assms show False by simp
qed

lemma upload_never_settles_example:
  "uploadTimetable args1 (world1\<lparr>upload_replies := (\<lambda>n. Reply unauthorized)\<rparr>) = None"
  by (rule upload_never_settles_under_401)
     (simp add: always_401_def args1_def world1_def unauthorized_def truthy_def ok_def
        buildUrl_def base_url_def)

subsection \<open>What holds of every state a service reaches\<close>

lemma timers_ok_steps:
  "timers_ok s \<Longrightarrow> steps evs s = Some s' \<Longrightarrow> timers_ok s'"
proof (induction evs arbitrary: s)
  case Nil
  then show ?case by simp
next
  case (Cons ev evs)
  then obtain s1 where s1: "step ev s = Some s1" "steps evs s1 = Some s'"
    by (auto split: option.splits)
  from Cons.IH [OF timers_ok_step [OF Cons.prems(1) s1(1)] s1(2)] show ?case .
qed

lemma scheduleRun_history:
  "history (scheduleRun now reason immediate s) = history s"
  "historyLimit (scheduleRun now reason immediate s) = historyLimit s"
  by (simp_all add: scheduleRun_def processQueue_def Let_def arm_timer_fields cancel_timer_fields
        runSync_begin_fields clearTimeout_def split: option.splits)

lemma history_ok_emit: "history_ok (emit e s) = history_ok s"
  by (simp add: history_ok_def emit_def)

lemma history_ok_push:
  assumes "0 < historyLimit s" "historyLimit s \<in> \<int>"
  shows "history_ok (pushHistory entry s)"
proof -
  have "historyLimit (pushHistory entry s) = historyLimit s"
    by (simp add: pushHistory_def emit_def Let_def)
  then show ?thesis
    using assms pushHistory_bound [OF assms, of entry] by (simp add: history_ok_def)
qed

lemma history_ok_step:
  assumes "history_ok s" "step ev s = Some s'"
  shows "history_ok s'"
proof (cases ev)
  case (StartResumes now rd)
  have "historyLimit (loadHistory rd s) = historyLimit s"
    by (simp add: loadHistory_def emit_def split: history_read.splits)
  then have "history_ok (loadHistory rd s)"
    using assms(1) loadHistory_bound [of s rd] by (simp add: history_ok_def)
  then show ?thesis
    using assms(2) StartResumes
    by (auto simp: step_def start_resume_def history_ok_def runSync_begin_fields setupWatcher_def)
next
  case Stops
  then show ?thesis using assms by (auto simp: step_def history_ok_def stop_fields)
next
  case PauseCalled
  then show ?thesis using assms by (auto simp: step_def pause_begin_def history_ok_def)
next
  case PauseResumes
  then show ?thesis
    using assms
    by (auto simp: step_def pause_finish_def emitStatus_def emit_def closeWatcher_def history_ok_def)
next
  case Resumes
  then show ?thesis
    using assms
    by (auto simp: step_def resume_def emitStatus_def emit_def setupWatcher_def history_ok_def)
next
  case (Triggered now reason)
  then show ?thesis
    using assms by (auto simp: step_def triggerSync_def history_ok_def scheduleRun_history emit_def)
next
  case (FileAdded now p)
  then show ?thesis
    using assms
    by (auto simp: step_def on_add_def history_ok_def scheduleRun_history emit_def split: if_splits)
next
  case (FileChanged now p)
  then show ?thesis
    using assms
    by (auto simp: step_def on_change_def history_ok_def scheduleRun_history emit_def
          split: if_splits)
next
  case (FileRemoved p)
  then show ?thesis
    using assms by (auto simp: step_def on_unlink_def history_ok_emit split: if_splits)
next
  case (TimerFires now h)
  then show ?thesis
    using assms
    by (auto simp: step_def processQueue_def arm_timer_def clearTimeout_def runSync_begin_fields
          history_ok_def Let_def split: if_splits)
next
  case (RunSettles ts reason outcome)
  have "history_ok (pushHistory (run_entry ts reason outcome) s)"
    using assms(1) by (intro history_ok_push) (simp_all add: history_ok_def)
  then show ?thesis
    using assms(2) RunSettles
    by (auto simp: step_def history_ok_def runSync_finish_fields pushHistory_def emit_def Let_def
          split: if_splits)
qed

lemma history_ok_steps:
  "history_ok s \<Longrightarrow> steps evs s = Some s' \<Longrightarrow> history_ok s'"
proof (induction evs arbitrary: s)
  case Nil
  then show ?case by simp
next
  case (Cons ev evs)
  then obtain s1 where s1: "step ev s = Some s1" "steps evs s1 = Some s'"
    by (auto split: option.splits)
  from Cons.IH [OF history_ok_step [OF Cons.prems(1) s1(1)] s1(2)] show ?case .
qed

lemma history_ok_new:
  "(case cfg_historyLimit cfg of None \<Rightarrow> True | Some n \<Rightarrow> 0 \<le> n \<and> n \<in> \<int>) \<Longrightarrow>
     history_ok (new_service cfg)"
  using new_service_limit(2) [of cfg] by (simp add: history_ok_def new_service_ok)

subsection \<open>Receivers that throw\<close>

lemma state_after_deliver: "state_after (deliver rc e s) = emit e s"
  by (simp add: deliver_def state_after_def split: option.splits)

lemma deliver_quiet: "quiet rc \<Longrightarrow> deliver rc e s = Returns (emit e s)"
  by (simp add: deliver_def quiet_def)

lemma pushHistory_x_quiet:
  "quiet rc \<Longrightarrow> pushHistory_x rc entry s = Returns (pushHistory entry s)"
  by (simp add: pushHistory_x_def pushHistory_def deliver_quiet Let_def)

lemma state_after_pushHistory_x: "state_after (pushHistory_x rc entry s) = pushHistory entry s"
  by (simp add: pushHistory_x_def pushHistory_def state_after_deliver Let_def)

lemma runSync_begin_x_quiet:
  "quiet rc \<Longrightarrow> runSync_begin_x rc ts reason s = Returns (runSync_begin ts reason s)"
  by (simp add: runSync_begin_x_def runSync_begin_def emitStatus_x_def emitStatus_def
        deliver_quiet Let_def)

lemma runSync_finish_x_quiet:
  "quiet rc \<Longrightarrow>
     runSync_finish_x rc ts reason outcome s = Returns (runSync_finish ts reason outcome s)"
  by (cases outcome)
     (simp_all add: runSync_finish_x_def runSync_finish_def run_try_def run_catch_def
        run_finally_def emitStatus_x_def emitStatus_def deliver_quiet pushHistory_x_quiet
        state_after_def Let_def)

text \<open>
  A first status broadcast that throws: the run is over before it has begun, and the
  service is left syncing, with \<^verbatim>\<open>running\<close> set.
\<close>

lemma runSync_begin_x_throws:
  assumes "rc (effects s) (EmitStatus (getStatus (s\<lparr>running := True, state := Syncing\<rparr>)))
             = Some msg"
  shows "\<exists>s1. runSync_begin_x rc ts reason s = Throws msg s1
            \<and> state s1 = Syncing \<and> running s1 \<and> inflight s1 = inflight s"
  using assms by (simp add: runSync_begin_x_def emitStatus_x_def deliver_def emit_def)

lemma state_pushHistory:
  "state (pushHistory entry s) = state s" "running (pushHistory entry s) = running s"
  by (simp_all add: pushHistory_def emit_def Let_def)

lemma state_after_run_catch:
  "state (state_after (run_catch rc ts reason msg s)) = Error"
proof -
  let ?s = "s\<lparr> lastRun := Some ts, lastResult := Some (run_result reason (Inl msg)),
                state := Error \<rparr>"
  let ?e = "run_entry ts reason (Inl msg)"
  have "state (state_after (pushHistory_x rc ?e ?s)) = Error"
    by (simp add: state_after_pushHistory_x state_pushHistory)
  then show ?thesis
    by (cases "pushHistory_x rc ?e ?s")
       (simp_all add: run_catch_def state_after_def deliver_def emit_def split: option.splits)
qed

lemma state_after_run_try:
  "state (state_after (run_try rc ts reason (Inr r) s)) = Idle"
proof -
  let ?s = "s\<lparr> lastRun := Some ts, lastResult := Some (run_result reason (Inr r)),
                state := Idle \<rparr>"
  let ?e = "run_entry ts reason (Inr r)"
  have "state (state_after (pushHistory_x rc ?e ?s)) = Idle"
    by (simp add: state_after_pushHistory_x state_pushHistory)
  then show ?thesis
    by (cases "pushHistory_x rc ?e ?s")
       (simp_all add: run_try_def state_after_def deliver_def emit_def split: option.splits)
qed

lemma state_after_run_finally:
  "state (state_after (run_finally rc c)) = state (state_after c)"
  "\<not> running (state_after (run_finally rc c))"
  by (simp_all add: run_finally_def emitStatus_x_def deliver_def emit_def state_after_def
        split: option.splits completion.splits)

text \<open>
  Whatever the receivers do, the part of \<^verbatim>\<open>runSync\<close> after the await leaves
  \<^verbatim>\<open>state\<close> at idle or error and \<^verbatim>\<open>running\<close> cleared. It may still throw.
\<close>

lemma runSync_finish_x_leaves_syncing:
  "state (state_after (runSync_finish_x rc ts reason outcome s)) = Idle
     \<or> state (state_after (runSync_finish_x rc ts reason outcome s)) = Error"
  "\<not> running (state_after (runSync_finish_x rc ts reason outcome s))"
proof -
  let ?tried = "run_try rc ts reason outcome s"
  let ?caught = "case ?tried of
                   Returns s1 \<Rightarrow> Returns s1
                 | Throws msg s1 \<Rightarrow> run_catch rc ts reason msg s1"
  have after_map: "state (state_after (map_completion f c)) = state (f (state_after c))"
    "running (state_after (map_completion f c)) = running (f (state_after c))" for f c
    by (cases c; simp add: state_after_def)+
  have caught: "state (state_after ?caught) = Idle \<or> state (state_after ?caught) = Error"
  proof (cases ?tried)
    case (Returns s1)
    then obtain r where "outcome = Inr r"
      by (cases outcome) (simp_all add: run_try_def)
    then show ?thesis
      using Returns state_after_run_try [of rc ts reason r s] by (simp add: state_after_def)
  next
    case (Throws msg s1)
    then show ?thesis by (simp add: state_after_run_catch)
  qed
  show "state (state_after (runSync_finish_x rc ts reason outcome s)) = Idle
     \<or> state (state_after (runSync_finish_x rc ts reason outcome s)) = Error"
    using caught by (simp add: runSync_finish_x_def Let_def after_map state_after_run_finally)
  show "\<not> running (state_after (runSync_finish_x rc ts reason outcome s))"
    by (simp add: runSync_finish_x_def Let_def after_map state_after_run_finally)
qed

lemma history_runSync:
  "history (runSync ts reason outcome s) = history (pushHistory (run_entry ts reason outcome) s)"
  by (simp add: runSync_def runSync_finish_fields history_pushHistory runSync_begin_fields
        del: length_append of_nat_Suc)

lemma config_runSync_begin: "config (runSync_begin ts reason s) = config s"
  by (simp add: runSync_begin_def emitStatus_def emit_def Let_def)

text \<open>An export whose files can be read, uploaded with no token to be had.\<close>

lemma pipeline_no_token:
  "pipeline cfg0 (Inr paths0) world0 = Some (Inr (''generated'', skipped_result ''no token''), world0)"
proof -
  have "uploadTimetable (upload_args_of cfg0 paths0) world0
          = Some (Inr (skipped_result ''no token''), world0)"
    by (rule upload_no_token [where ?p1.0 = "studentCoursePath paths0"
          and ?p2.0 = "studentTimetablePath paths0" and ?p3.0 = "timetablePath paths0"
          and buffers = "[''csv'', ''csv'', ''csv'']"])
       (simp_all add: upload_args_of_def cfg0_def paths0_def world0_def truthy_def js_or_def
          getCachedToken_def buildUrl_def base_url_def)
  then show ?thesis by (simp add: pipeline_def paths0_def)
qed

lemma pipeline_always_401: "pipeline cfg1 (Inr paths0) world401 = None"
proof -
  have "always_401 (upload_args_of cfg1 paths0) world401"
    by (simp add: always_401_def upload_args_of_def cfg1_def cfg0_def paths0_def world401_def
          world1_def unauthorized_def truthy_def js_or_def ok_def buildUrl_def base_url_def)
  then show ?thesis
    by (simp add: pipeline_def upload_never_settles_under_401)
qed

section \<open>The claims\<close>

subsection \<open>C1: one retry after an authorization failure\<close>

text \<open>
  C1 says that after a 401 on a token that was not supplied explicitly the upload is
  retried exactly once with a fresh token, and that a second 401 is a hard error with no
  further retry. The source says the same (its comment reads: clear cache and retry
  once), but the retry is a call of \<^verbatim>\<open>uploadTimetable\<close> itself with
  \<^verbatim>\<open>apiToken: null\<close>, for which the same branch is open again. Here the cached token
  and the first fresh token are both rejected with 401: the call does not throw, it logs
  in a second time, uploads a third time and returns the accepted result.
\<close>

theorem upload_retries_after_second_401:
  "(case uploadTimetable args1 world1 of
      None \<Rightarrow> False
    | Some (Inl msg, w) \<Rightarrow> False
    | Some (Inr r, w) \<Rightarrow>
        ur_status r = Some 200 \<and> map fst (uploads w) = [''stale'', ''fresh'', ''fresh'']
        \<and> logins w = 2)"
  apply (subst uploadTimetable.simps)
  apply (simp add: upload_defs args1_def world1_def unauthorized_def accepted_def)
  apply (subst uploadTimetable.simps)
  apply (simp add: upload_defs args1_def world1_def unauthorized_def accepted_def)
  apply (subst uploadTimetable.simps)
  apply (simp add: upload_defs args1_def world1_def unauthorized_def accepted_def)
  done

subsection \<open>C2: a burst of deferred triggers gives one run\<close>




subsection \<open>C3: the history list stays within its limit\<close>

text \<open>
  C3 says that after every mutation of the history list its length is at most
  \<^verbatim>\<open>historyLimit\<close>. The limit is \<^verbatim>\<open>Number(config.historyLimit || 50)\<close> and is never
  checked. With the limit -1, \<^verbatim>\<open>pushHistory\<close> empties the list, and the length 0 is
  above the limit. With the limit 2.5, a third entry makes the length 3, which is above
  the limit, but \<^verbatim>\<open>splice(0, 0.5)\<close> removes nothing, so the three entries stay.
\<close>

theorem history_bound_fails_for_unchecked_limit:
  "\<not> of_nat (length (history (pushHistory entry0
                (new_service (cfg0\<lparr>cfg_historyLimit := Some (- 1)\<rparr>)))))
      \<le> historyLimit (new_service (cfg0\<lparr>cfg_historyLimit := Some (- 1)\<rparr>))
   \<and> history (pushHistory entry0 (new_service (cfg0\<lparr>cfg_historyLimit := Some (- 1)\<rparr>))) = []
   \<and> history (pushHistory entry0 (pushHistory entry0 (pushHistory entry0
                (new_service (cfg0\<lparr>cfg_historyLimit := Some (5 / 2)\<rparr>)))))
       = [entry0, entry0, entry0]
   \<and> \<not> of_nat (length (history (pushHistory entry0 (pushHistory entry0 (pushHistory entry0
                (new_service (cfg0\<lparr>cfg_historyLimit := Some (5 / 2)\<rparr>)))))))
      \<le> historyLimit (new_service (cfg0\<lparr>cfg_historyLimit := Some (5 / 2)\<rparr>))"
proof -
  have limit: "historyLimit (pushHistory e s) = historyLimit s" for e s
    by (simp add: pushHistory_def emit_def Let_def)
  have negative: "historyLimit (new_service (cfg0\<lparr>cfg_historyLimit := Some (- 1)\<rparr>)) = - 1"
    and fraction: "historyLimit (new_service (cfg0\<lparr>cfg_historyLimit := Some (5 / 2)\<rparr>)) = 5 / 2"
    by (simp_all add: new_service_def number_or_def)
  have emptied: "history (pushHistory entry0
                   (new_service (cfg0\<lparr>cfg_historyLimit := Some (- 1)\<rparr>))) = []"
    by (simp add: history_pushHistory negative new_service_ok js_splice0_def js_trunc_def)
  have kept: "history (pushHistory entry0 (pushHistory entry0 (pushHistory entry0
                (new_service (cfg0\<lparr>cfg_historyLimit := Some (5 / 2)\<rparr>)))))
       = [entry0, entry0, entry0]"
    by (simp add: history_pushHistory limit fraction new_service_ok js_splice0_def js_trunc_def)
  show ?thesis
    unfolding emptied kept negative fraction by simp
qed

text \<open>
  C3, amended: when \<^verbatim>\<open>historyLimit\<close> is a positive integer, appending an entry leaves
  exactly the last \<^verbatim>\<open>historyLimit\<close> entries of the extended list, loading an array from
  storage leaves exactly its last \<^verbatim>\<open>historyLimit\<close> entries, and after either mutation
  (whatever the read gave) the length is at most \<^verbatim>\<open>historyLimit\<close>. What is evicted is
  therefore always a prefix of the list: the oldest entries. (By \<open>history_ok_steps\<close>
  the bound then holds in every state the service reaches.)
\<close>

theorem history_bounded_when_limit_positive_integer:
  assumes "0 < historyLimit s" "historyLimit s \<in> \<int>"
  shows "history (pushHistory entry s)
           = keep_last (nat \<lfloor>historyLimit s\<rfloor>) (history s @ [entry])
     \<and> of_nat (length (history (pushHistory entry s))) \<le> historyLimit s
     \<and> history (loadHistory (Parsed parsed) s) = keep_last (nat \<lfloor>historyLimit s\<rfloor>) parsed
     \<and> (of_nat (length (history s)) \<le> historyLimit s \<longrightarrow>
          of_nat (length (history (loadHistory rd s))) \<le> historyLimit s)"
proof -
  note pi = positive_integer [OF assms]
  have push: "history (pushHistory entry s)
                = keep_last (nat \<lfloor>historyLimit s\<rfloor>) (history s @ [entry])"
    using assms(1) pi(2) by (simp add: pushHistory_keep_last)
  have push_len: "of_nat (length (history (pushHistory entry s))) \<le> historyLimit s"
    using assms by (rule pushHistory_bound)
  have load: "history (loadHistory (Parsed parsed) s)
                = keep_last (nat \<lfloor>historyLimit s\<rfloor>) parsed"
    using pi(1) by (simp add: loadHistory_def js_slice_from_keep_last)
  have load_len: "of_nat (length (history s)) \<le> historyLimit s \<longrightarrow>
          of_nat (length (history (loadHistory rd s))) \<le> historyLimit s"
    using assms loadHistory_bound by blast
  from push push_len load load_len show ?thesis by blast
qed

theorem history_bounded_when_limit_positive_integer_witness:
  "0 < historyLimit ((new_service cfg0)\<lparr>historyLimit := 2\<rparr>)
   \<and> historyLimit ((new_service cfg0)\<lparr>historyLimit := 2\<rparr>) \<in> \<int>
   \<and> history (pushHistory entry0
        ((new_service cfg0)\<lparr>historyLimit := 2,
           history := [entry0\<lparr>he_reason := ''A''\<rparr>, entry0\<lparr>he_reason := ''B''\<rparr>]\<rparr>))
      = [entry0\<lparr>he_reason := ''B''\<rparr>, entry0]"
  using history_bounded_when_limit_positive_integer
    [of "(new_service cfg0)\<lparr>historyLimit := 2,
           history := [entry0\<lparr>he_reason := ''A''\<rparr>, entry0\<lparr>he_reason := ''B''\<rparr>]\<rparr>" entry0]
  by (simp add: keep_last_def)

subsection \<open>C4: every run leaves the syncing state\<close>

text \<open>
  C4 says that every run ends out of the syncing state, with \<^verbatim>\<open>running\<close> false, a
  history entry appended and a status broadcast, and that no exception reaches the
  caller. Three runs for which that fails. A subscriber throws on the first status
  broadcast, which stands before the \<^verbatim>\<open>try\<close>: the exception reaches the caller and
  the service stays syncing, with \<^verbatim>\<open>running\<close> set. The remote side answers every upload
  with 401: the upload never settles, so the run never completes and the state stays
  syncing. The history limit is -1: the run completes, and the history is empty.
\<close>

theorem runSync_can_stay_syncing:
  "(case runSync_x status_thrower ''t1'' ''Startup Sync'' (Inr paths0) world0
           (new_service cfg0) of
      Some (Throws msg s', w') \<Rightarrow> msg = ''boom'' \<and> state s' = Syncing \<and> running s'
    | _ \<Rightarrow> False)
   \<and> runSync_x (\<lambda>sent e. None) ''t1'' ''Startup Sync'' (Inr paths0) world401
        (new_service cfg1) = None
   \<and> state (runSync_begin ''t1'' ''Startup Sync'' (new_service cfg1)) = Syncing
   \<and> history (runSync ''t1'' ''Startup Sync'' outcome0
        (new_service (cfg0\<lparr>cfg_historyLimit := Some (- 1)\<rparr>))) = []"
proof -
  have thrown: "(case runSync_x status_thrower ''t1'' ''Startup Sync'' (Inr paths0) world0
           (new_service cfg0) of
      Some (Throws msg s', w') \<Rightarrow> msg = ''boom'' \<and> state s' = Syncing \<and> running s'
    | _ \<Rightarrow> False)"
    by (simp add: runSync_x_def runSync_begin_x_def emitStatus_x_def deliver_def
          status_thrower_def emit_def)
  have "quiet (\<lambda>sent e. None)" by (simp add: quiet_def)
  then have never: "runSync_x (\<lambda>sent e. None) ''t1'' ''Startup Sync'' (Inr paths0) world401
        (new_service cfg1) = None"
    by (simp add: runSync_x_def runSync_begin_x_quiet config_runSync_begin new_service_def
          pipeline_always_401)
  have emptied: "history (runSync ''t1'' ''Startup Sync'' outcome0
        (new_service (cfg0\<lparr>cfg_historyLimit := Some (- 1)\<rparr>))) = []"
    by (simp add: history_runSync history_pushHistory new_service_def number_or_def
          js_splice0_def js_trunc_def)
  from thrown never emptied show ?thesis
    by (simp add: runSync_begin_fields)
qed

text \<open>
  C4, amended. When no receiver throws and the awaited export and upload settle, resolved
  or thrown, the run completes and no exception reaches the caller; it sets \<^verbatim>\<open>state\<close>
  to idle (resolved, success or skipped) or to error (thrown), never leaves it at
  syncing, clears \<^verbatim>\<open>running\<close>, sets \<^verbatim>\<open>lastRun\<close> and \<^verbatim>\<open>lastResult\<close>, pushes the
  run's entry onto the history (the history is then a suffix of the old one extended by
  that entry, and ends with it when the limit is positive), and broadcasts the status
  last. The same holds of the part of the run after its await, whatever happened to the
  service \<open>s'\<close> while the steps were awaited. And whatever the receivers \<open>rc'\<close> do in
  that part, thrown or not, it leaves \<^verbatim>\<open>state\<close> at idle or error and \<^verbatim>\<open>running\<close>
  false.
\<close>

theorem runSync_settles_when_awaited_steps_do:
  assumes "quiet rc" "pipeline (config s) exported w = Some (outcome, w')"
  shows "runSync_x rc ts reason exported w s
           = Some (Returns (runSync ts reason outcome s), w')
   \<and> state (runSync ts reason outcome s) = (case outcome of Inr r \<Rightarrow> Idle | Inl msg \<Rightarrow> Error)
   \<and> state (runSync ts reason outcome s) \<noteq> Syncing
   \<and> running (runSync ts reason outcome s) = False
   \<and> lastRun (runSync ts reason outcome s) = Some ts
   \<and> map_option lr_status (lastResult (runSync ts reason outcome s))
       = Some (case outcome of
                 Inr (dir, u) \<Rightarrow> if ur_skipped u then Skipped else Success
               | Inl msg \<Rightarrow> Failed)
   \<and> (\<exists>k. history (runSync ts reason outcome s)
            = drop k (history s @ [run_entry ts reason outcome]))
   \<and> (0 < historyLimit s \<longrightarrow>
        history (runSync ts reason outcome s) \<noteq> []
        \<and> last (history (runSync ts reason outcome s)) = run_entry ts reason outcome)
   \<and> last (effects (runSync ts reason outcome s))
       = EmitStatus (getStatus (runSync ts reason outcome s))
   \<and> length (inflight (runSync ts reason outcome s)) = length (inflight s)
   \<and> runSync_finish_x rc ts reason outcome s' = Returns (runSync_finish ts reason outcome s')
   \<and> state (runSync_finish ts reason outcome s')
       = (case outcome of Inr r \<Rightarrow> Idle | Inl msg \<Rightarrow> Error)
   \<and> running (runSync_finish ts reason outcome s') = False
   \<and> (\<exists>k. history (runSync_finish ts reason outcome s')
            = drop k (history s' @ [run_entry ts reason outcome]))
   \<and> (0 < historyLimit s' \<longrightarrow>
        history (runSync_finish ts reason outcome s') \<noteq> []
        \<and> last (history (runSync_finish ts reason outcome s')) = run_entry ts reason outcome)
   \<and> last (effects (runSync_finish ts reason outcome s'))
       = EmitStatus (getStatus (runSync_finish ts reason outcome s'))
   \<and> inflight (runSync_finish ts reason outcome s') = remove1 (reason, ts) (inflight s')
   \<and> (state (state_after (runSync_finish_x rc' ts reason outcome s')) = Idle
        \<or> state (state_after (runSync_finish_x rc' ts reason outcome s')) = Error)
   \<and> \<not> running (state_after (runSync_finish_x rc' ts reason outcome s'))"
proof -
  let ?r = "runSync ts reason outcome s"
  let ?f = "runSync_finish ts reason outcome s'"
  have total: "runSync_x rc ts reason exported w s = Some (Returns ?r, w')"
    using assms
    by (simp add: runSync_x_def runSync_begin_x_quiet runSync_finish_x_quiet
          config_runSync_begin runSync_def)
  have st: "state ?r = (case outcome of Inr r \<Rightarrow> Idle | Inl msg \<Rightarrow> Error)"
    by (simp add: runSync_def runSync_finish_fields)
  then have out: "state ?r \<noteq> Syncing"
    by (simp split: sum.splits)
  have flag: "running ?r = False" "lastRun ?r = Some ts"
    "length (inflight ?r) = length (inflight s)"
    by (simp_all add: runSync_def runSync_finish_fields runSync_begin_fields length_remove1)
  have res: "map_option lr_status (lastResult ?r)
       = Some (case outcome of
                 Inr (dir, u) \<Rightarrow> if ur_skipped u then Skipped else Success
               | Inl msg \<Rightarrow> Failed)"
    by (simp add: runSync_def runSync_finish_fields run_result_def result_status_of_def
             split: sum.splits prod.splits)
  have suffix: "\<exists>k. history ?r = drop k (history s @ [run_entry ts reason outcome])"
    unfolding history_runSync by (rule pushHistory_suffix)
  have appended: "0 < historyLimit s \<longrightarrow>
        history ?r \<noteq> [] \<and> last (history ?r) = run_entry ts reason outcome"
    by (simp add: history_runSync pushHistory_last)
  have broadcast: "last (effects ?r) = EmitStatus (getStatus ?r)"
    unfolding runSync_def by (subst runSync_finish_effects) simp
  have part: "runSync_finish_x rc ts reason outcome s' = Returns ?f"
    using assms(1) by (rule runSync_finish_x_quiet)
  have st': "state ?f = (case outcome of Inr r \<Rightarrow> Idle | Inl msg \<Rightarrow> Error)"
    "running ?f = False" "inflight ?f = remove1 (reason, ts) (inflight s')"
    by (simp_all add: runSync_finish_fields)
  have suffix': "\<exists>k. history ?f = drop k (history s' @ [run_entry ts reason outcome])"
    unfolding runSync_finish_fields by (rule pushHistory_suffix)
  have appended': "0 < historyLimit s' \<longrightarrow>
        history ?f \<noteq> [] \<and> last (history ?f) = run_entry ts reason outcome"
    by (simp add: runSync_finish_fields pushHistory_last)
  have broadcast': "last (effects ?f) = EmitStatus (getStatus ?f)"
    by (subst runSync_finish_effects) simp
  note any = runSync_finish_x_leaves_syncing [of rc' ts reason outcome s']
  from total st out flag res suffix appended broadcast part st' suffix' appended' broadcast' any
  show ?thesis by blast
qed

theorem runSync_settles_when_awaited_steps_do_witness:
  "quiet (\<lambda>sent e. None)
   \<and> pipeline (config (new_service cfg0)) (Inr paths0) world0
       = Some (Inr (''generated'', skipped_result ''no token''), world0)
   \<and> 0 < historyLimit (new_service cfg0)
   \<and> runSync_x (\<lambda>sent e. None) ''t1'' ''Startup Sync'' (Inr paths0) world0 (new_service cfg0)
       = Some (Returns (runSync ''t1'' ''Startup Sync''
                          (Inr (''generated'', skipped_result ''no token''))
                          (new_service cfg0)), world0)
   \<and> state (runSync ''t1'' ''Startup Sync''
              (Inr (''generated'', skipped_result ''no token'')) (new_service cfg0)) = Idle
   \<and> last (history (runSync ''t1'' ''Startup Sync''
              (Inr (''generated'', skipped_result ''no token'')) (new_service cfg0)))
       = run_entry ''t1'' ''Startup Sync'' (Inr (''generated'', skipped_result ''no token''))"
proof -
  have q: "quiet (\<lambda>sent e. None)" by (simp add: quiet_def)
  have cfg: "config (new_service c) = c" for c
    by (simp add: new_service_def)
  have limit: "0 < historyLimit (new_service cfg0)"
    by (simp add: new_service_def cfg0_def number_or_def DEFAULT_HISTORY_LIMIT_def)
  have p: "pipeline (config (new_service cfg0)) (Inr paths0) world0
       = Some (Inr (''generated'', skipped_result ''no token''), world0)"
    by (simp add: cfg pipeline_no_token)
  show ?thesis
    using q limit p
      runSync_settles_when_awaited_steps_do
        [where rc = "\<lambda>sent e. None" and s = "new_service cfg0" and exported = "Inr paths0"
           and w = world0 and w' = world0 and ts = "''t1''" and reason = "''Startup Sync''"
           and outcome = "Inr (''generated'', skipped_result ''no token'')"]
    by simp
qed

subsection \<open>C5: at most one run at a time\<close>

text \<open>
  C5 says that at most one pipeline execution is in progress at any time. The queue keeps
  that (see \<open>single_flight_step\<close> and \<open>timer_fires_during_run\<close>), but \<^verbatim>\<open>start()\<close>
  calls \<^verbatim>\<open>runSync\<close> without looking at \<^verbatim>\<open>running\<close>. Here \<^verbatim>\<open>start()\<close> has been
  called on a new service and waits for the read of the history file; a manual trigger
  arrives and starts a run; then the read settles, \<^verbatim>\<open>start()\<close> resumes and starts the
  startup run while the first is still in flight.
\<close>

theorem start_overlaps_triggered_run:
  "(case steps [Triggered ''t1'' None, StartResumes ''t2'' (ReadFailed True ''ENOENT'')]
           (new_service cfg0) of
      None \<Rightarrow> False
    | Some s \<Rightarrow> inflight s = [(''manual trigger'', ''t1''), (''Startup Sync'', ''t2'')]
               \<and> running s)"
  by (simp add: step_def start_resume_def runSync_begin_fields setupWatcher_def loadHistory_def
        triggerSync_free new_service_ok pending_or_default_def cancel_timer_fields)

subsection \<open>C6: stop() during a run\<close>




subsection \<open>C7: a paused service ignores every trigger\<close>

text \<open>
  C7: while \<^verbatim>\<open>paused\<close> is true, any sequence of triggers (calls of
  \<^verbatim>\<open>triggerSync\<close>, calls of \<^verbatim>\<open>scheduleRun\<close> of either kind, file events) changes
  nothing but the log: \<^verbatim>\<open>triggerSync\<close> only logs a warning, \<^verbatim>\<open>scheduleRun\<close> returns
  the service as it was, and so \<^verbatim>\<open>state\<close>, \<^verbatim>\<open>lastRun\<close>, \<^verbatim>\<open>lastResult\<close>,
  \<^verbatim>\<open>history\<close>, the pending reason, the timer and the runs in flight are as before, the
  status a consumer would read is the same, and nothing is broadcast.
\<close>

theorem paused_ignores_triggers:
  assumes "paused s"
  shows "fold pull ts s = s\<lparr>effects := effects s @ concat (map trigger_log ts)\<rparr>
     \<and> triggerSync now reason s = emit (LogWarn ''[sync] ignored trigger while paused'') s
     \<and> scheduleRun now r immediate s = s
     \<and> state (fold pull ts s) = state s
     \<and> lastRun (fold pull ts s) = lastRun s
     \<and> lastResult (fold pull ts s) = lastResult s
     \<and> history (fold pull ts s) = history s
     \<and> pendingReason (fold pull ts s) = pendingReason s
     \<and> timer (fold pull ts s) = timer s
     \<and> armed (fold pull ts s) = armed s
     \<and> inflight (fold pull ts s) = inflight s
     \<and> paused (fold pull ts s)
     \<and> getStatus (fold pull ts s) = getStatus s
     \<and> filter is_broadcast (effects (fold pull ts s)) = filter is_broadcast (effects s)"
proof -
  have all: "fold pull ts s = s\<lparr>effects := effects s @ concat (map trigger_log ts)\<rparr>"
    using assms by (rule pulls_paused)
  have manual: "triggerSync now reason s = emit (LogWarn ''[sync] ignored trigger while paused'') s"
    using assms by (simp add: triggerSync_def)
  have sched: "scheduleRun now r immediate s = s"
    using assms by (simp add: scheduleRun_def)
  show ?thesis
    unfolding all using manual sched assms
    by (simp add: getStatus_def trigger_logs_quiet)
qed

theorem paused_ignores_triggers_witness:
  "paused (pause (new_service cfg0))
   \<and> state (fold pull triggers0 (pause (new_service cfg0))) = Idle
   \<and> armed (fold pull triggers0 (pause (new_service cfg0))) = []
   \<and> pendingReason (fold pull triggers0 (pause (new_service cfg0))) = None
   \<and> inflight (fold pull triggers0 (pause (new_service cfg0))) = []"
proof -
  have p: "paused (pause (new_service cfg0))"
    by (simp add: pause_def pause_begin_def pause_finish_def emitStatus_def emit_def
          closeWatcher_def)
  have f: "state (pause (new_service cfg0)) = Idle" "armed (pause (new_service cfg0)) = []"
    "pendingReason (pause (new_service cfg0)) = None"
    "inflight (pause (new_service cfg0)) = []"
    by (simp_all add: pause_def pause_begin_def pause_finish_def emitStatus_def emit_def
          closeWatcher_def new_service_def)
  show ?thesis
    using p f paused_ignores_triggers [OF p, of triggers0] by simp
qed

subsection \<open>C8: a run without any token is skipped\<close>

text \<open>
  C8 says that with no explicit token, no cached token and no usable login credentials a
  triggered run completes as skipped, with the reason \<^verbatim>\<open>no token\<close>. But
  \<^verbatim>\<open>loginForToken\<close> builds the login URL and reads the members of the login setting
  before it tests the credentials. Here there is no token of any kind and there are no
  credentials; with the base URL \<^verbatim>\<open>innersync.com.au\<close>, which has no scheme, and
  likewise with the login setting \<^verbatim>\<open>null\<close>, the upload throws, and the run ends in
  the error state with a failed entry in the history.
\<close>

theorem no_token_run_can_fail:
  "uploadTimetable
      (upload_args_of (cfg0\<lparr>cfg_apiBaseUrl := Some ''innersync.com.au''\<rparr>) paths0) world0
     = Some (Inl ''Invalid URL'', world0)
   \<and> pipeline (cfg0\<lparr>cfg_apiBaseUrl := Some ''innersync.com.au''\<rparr>) (Inr paths0) world0
       = Some (Inl ''Invalid URL'', world0)
   \<and> state (runSync_finish ''t1'' ''manual trigger'' (Inl ''Invalid URL'')
        (triggerSync ''t1'' None
           (new_service (cfg0\<lparr>cfg_apiBaseUrl := Some ''innersync.com.au''\<rparr>)))) = Error
   \<and> map he_status (history (runSync_finish ''t1'' ''manual trigger'' (Inl ''Invalid URL'')
        (triggerSync ''t1'' None
           (new_service (cfg0\<lparr>cfg_apiBaseUrl := Some ''innersync.com.au''\<rparr>))))) = [Failed]
   \<and> pipeline (cfg0\<lparr>cfg_login := Null\<rparr>) (Inr paths0) world0
       = Some (Inl ''Cannot read properties of null (reading 'email')'', world0)
   \<and> state (runSync_finish ''t1'' ''manual trigger''
        (Inl ''Cannot read properties of null (reading 'email')'')
        (triggerSync ''t1'' None (new_service (cfg0\<lparr>cfg_login := Null\<rparr>)))) = Error"
proof -
  let ?c = "cfg0\<lparr>cfg_apiBaseUrl := Some ''innersync.com.au''\<rparr>"
  have up: "uploadTimetable (upload_args_of ?c paths0) world0
              = Some (Inl ''Invalid URL'', world0)"
    by (rule upload_invalid_url [where ?p1.0 = "studentCoursePath paths0"
          and ?p2.0 = "studentTimetablePath paths0" and ?p3.0 = "timetablePath paths0"
          and buffers = "[''csv'', ''csv'', ''csv'']"])
       (simp_all add: upload_args_of_def cfg0_def paths0_def world0_def truthy_def js_or_def
          getCachedToken_def buildUrl_def base_url_def)
  then have pipe: "pipeline ?c (Inr paths0) world0 = Some (Inl ''Invalid URL'', world0)"
    by (simp add: pipeline_def)
  have null: "pipeline (cfg0\<lparr>cfg_login := Null\<rparr>) (Inr paths0) world0
       = Some (Inl ''Cannot read properties of null (reading 'email')'', world0)"
    apply (simp add: pipeline_def)
    apply (subst uploadTimetable.simps)
    apply (simp add: upload_defs upload_args_of_def cfg0_def paths0_def world0_def)
    done
  have started: "history (triggerSync ''t1'' None (new_service c)) = []"
    "historyLimit (triggerSync ''t1'' None (new_service c)) = historyLimit (new_service c)" for c
    by (simp_all add: triggerSync_free new_service_ok runSync_begin_fields cancel_timer_fields)
  have limit: "historyLimit (new_service ?c) = 50"
    by (simp add: new_service_def number_or_def cfg0_def DEFAULT_HISTORY_LIMIT_def)
  have hist: "map he_status (history (runSync_finish ''t1'' ''manual trigger'' (Inl ''Invalid URL'')
        (triggerSync ''t1'' None (new_service ?c)))) = [Failed]"
    by (simp add: runSync_finish_fields history_pushHistory started limit run_entry_def)
  from up pipe null hist show ?thesis
    by (simp add: runSync_finish_fields)
qed

text \<open>
  C8, amended: no token is configured, none is cached, the login setting is missing or
  an object without usable credentials (not \<^verbatim>\<open>null\<close>), the base URL is one from which
  the login URL can be built, and the history limit is positive; the export has resolved
  with three non-empty paths whose files can be read. Then \<^verbatim>\<open>uploadTimetable\<close>
  returns the skipped outcome with reason \<^verbatim>\<open>no token\<close> and touches nothing. A manual
  trigger on an idle service starts the run, the awaited steps resolve with that
  outcome, and the run settles with \<^verbatim>\<open>lastResult.status\<close> skipped,
  \<^verbatim>\<open>lastResult.reason\<close> \<^verbatim>\<open>no token\<close>, \<^verbatim>\<open>state\<close> idle and \<^verbatim>\<open>running\<close> false;
  the history is the old one, cut at the front to fit the limit, with exactly one entry
  appended, of status skipped.
\<close>

theorem no_token_run_is_skipped:
  assumes "\<not> paused s" "\<not> running s" "timers_ok s" "0 < historyLimit s"
    and "\<not> truthy (cfg_apiToken (config s))"
    and "getCachedToken (js_or (cfg_tokenCachePath (config s)) None) w = None"
    and "buildUrl w (base_url (js_or (cfg_apiBaseUrl (config s)) (cfg_apiUrl (config s))))
           ''/api/login'' \<noteq> None"
    and "case cfg_login (config s) of
           Undefined \<Rightarrow> True
         | Null \<Rightarrow> False
         | Given c \<Rightarrow> \<not> (truthy (email c) \<and> truthy (password c))"
    and "studentCoursePath p \<noteq> []" "studentTimetablePath p \<noteq> []" "timetablePath p \<noteq> []"
    and "read_all w [studentCoursePath p, studentTimetablePath p, timetablePath p] = Inr buffers"
  shows "let s1 = triggerSync now None s;
             outcome = Inr (outputDir p, skipped_result ''no token'');
             s2 = runSync_finish now ''manual trigger'' outcome s1
         in uploadTimetable (upload_args_of (config s) p) w
              = Some (Inr (skipped_result ''no token''), w)
            \<and> inflight s1 = inflight s @ [(''manual trigger'', now)]
            \<and> pipeline (config s1) (Inr p) w = Some (outcome, w)
            \<and> step (RunSettles now ''manual trigger'' outcome) s1 = Some s2
            \<and> map_option lr_status (lastResult s2) = Some Skipped
            \<and> map_option lr_reason (lastResult s2) = Some (Some ''no token'')
            \<and> state s2 = Idle \<and> \<not> running s2
            \<and> he_status (run_entry now ''manual trigger'' outcome) = Skipped
            \<and> history s2 = keep_last (nat \<lceil>historyLimit s\<rceil>)
                             (history s @ [run_entry now ''manual trigger'' outcome])
            \<and> history s2 = drop (Suc (length (history s)) - nat \<lceil>historyLimit s\<rceil>) (history s)
                             @ [run_entry now ''manual trigger'' outcome]"
proof -
  define outcome :: outcome where "outcome = Inr (outputDir p, skipped_result ''no token'')"
  define s1 where "s1 = triggerSync now None s"
  define s2 where "s2 = runSync_finish now ''manual trigger'' outcome s1"
  have s1: "s1 = runSync_begin now ''manual trigger''
             ((cancel_timer (s\<lparr>pendingReason := Some ''manual trigger''\<rparr>))
                \<lparr>pendingReason := None, timer := None\<rparr>)"
    unfolding s1_def using triggerSync_free [OF assms(1-3), of now None]
    by (simp add: pending_or_default_def)
  have cfg: "config s1 = config s"
    by (simp add: s1 runSync_begin_def emitStatus_def emit_def Let_def cancel_timer_def
          clearTimeout_def split: option.splits)
  have f1: "inflight s1 = inflight s @ [(''manual trigger'', now)]"
    "history s1 = history s" "historyLimit s1 = historyLimit s"
    by (simp_all add: s1 runSync_begin_fields cancel_timer_fields)
  have up: "uploadTimetable (upload_args_of (config s) p) w
              = Some (Inr (skipped_result ''no token''), w)"
    using assms(5-12)
    by (intro upload_no_token [where ?p1.0 = "studentCoursePath p"
          and ?p2.0 = "studentTimetablePath p" and ?p3.0 = "timetablePath p"
          and buffers = buffers])
       (simp_all add: upload_args_of_def)
  have pipe: "pipeline (config s1) (Inr p) w = Some (outcome, w)"
    by (simp add: pipeline_def cfg up outcome_def)
  have settle: "step (RunSettles now ''manual trigger'' outcome) s1 = Some s2"
    by (simp add: step_def f1 s2_def)
  have res: "map_option lr_status (lastResult s2) = Some Skipped"
    "map_option lr_reason (lastResult s2) = Some (Some ''no token'')"
    "state s2 = Idle" "\<not> running s2"
    "he_status (run_entry now ''manual trigger'' outcome) = Skipped"
    by (simp_all add: s2_def runSync_finish_fields run_result_def run_entry_def outcome_def
          skipped_result_def result_status_of_def js_or_def truthy_def)
  have hist: "history s2 = keep_last (nat \<lceil>historyLimit s\<rceil>)
                             (history s @ [run_entry now ''manual trigger'' outcome])"
    using assms(4) pushHistory_keep_last [of s1 "run_entry now ''manual trigger'' outcome"]
    by (simp add: s2_def runSync_finish_fields f1)
  have "0 < nat \<lceil>historyLimit s\<rceil>"
    using assms(4) by (simp add: less_ceiling_iff)
  then have one: "history s2 = drop (Suc (length (history s)) - nat \<lceil>historyLimit s\<rceil>) (history s)
                             @ [run_entry now ''manual trigger'' outcome]"
    unfolding hist by (rule keep_last_snoc)
  show ?thesis
    unfolding Let_def outcome_def [symmetric] s1_def [symmetric] s2_def [symmetric]
    using up f1(1) pipe settle res hist one by simp
qed

theorem no_token_run_is_skipped_witness:
  "\<not> paused (new_service cfg0) \<and> \<not> running (new_service cfg0) \<and> timers_ok (new_service cfg0)
   \<and> 0 < historyLimit (new_service cfg0)
   \<and> \<not> truthy (cfg_apiToken (config (new_service cfg0)))
   \<and> getCachedToken (js_or (cfg_tokenCachePath (config (new_service cfg0))) None) world0 = None
   \<and> buildUrl world0
        (base_url (js_or (cfg_apiBaseUrl (config (new_service cfg0)))
                     (cfg_apiUrl (config (new_service cfg0))))) ''/api/login''
       = Some ''https://innersync.com.au/api/login''
   \<and> cfg_login (config (new_service cfg0)) = Undefined
   \<and> read_all world0 [studentCoursePath paths0, studentTimetablePath paths0, timetablePath paths0]
       = Inr [''csv'', ''csv'', ''csv'']
   \<and> uploadTimetable (upload_args_of (config (new_service cfg0)) paths0) world0
       = Some (Inr (skipped_result ''no token''), world0)
   \<and> history (runSync_finish ''t1'' ''manual trigger''
                (Inr (''generated'', skipped_result ''no token''))
                (triggerSync ''t1'' None (new_service cfg0)))
       = [run_entry ''t1'' ''manual trigger'' (Inr (''generated'', skipped_result ''no token''))]
   \<and> he_status (run_entry ''t1'' ''manual trigger''
                   (Inr (''generated'', skipped_result ''no token''))) = Skipped"
proof -
  have cfg: "config (new_service c) = c" for c
    by (simp add: new_service_def)
  have lim: "historyLimit (new_service cfg0) = 50"
    by (simp add: new_service_def number_or_def cfg0_def DEFAULT_HISTORY_LIMIT_def)
  have pre: "\<not> truthy (cfg_apiToken (config (new_service cfg0)))"
    "getCachedToken (js_or (cfg_tokenCachePath (config (new_service cfg0))) None) world0 = None"
    "buildUrl world0
        (base_url (js_or (cfg_apiBaseUrl (config (new_service cfg0)))
                     (cfg_apiUrl (config (new_service cfg0))))) ''/api/login''
       = Some ''https://innersync.com.au/api/login''"
    "cfg_login (config (new_service cfg0)) = Undefined"
    by (simp_all add: cfg cfg0_def truthy_def js_or_def getCachedToken_def buildUrl_def
          base_url_def world0_def)
  have files: "studentCoursePath paths0 \<noteq> []" "studentTimetablePath paths0 \<noteq> []"
    "timetablePath paths0 \<noteq> []"
    "read_all world0 [studentCoursePath paths0, studentTimetablePath paths0, timetablePath paths0]
       = Inr [''csv'', ''csv'', ''csv'']"
    by (simp_all add: paths0_def world0_def)
  show ?thesis
    using pre files
      no_token_run_is_skipped [where s = "new_service cfg0" and w = world0 and p = paths0
        and buffers = "[''csv'', ''csv'', ''csv'']" and now = "''t1''"]
    by (simp add: new_service_ok Let_def cfg lim keep_last_def paths0_def)
qed

subsection \<open>C9: a manual trigger\<close>

text \<open>
  C9 says that a manual trigger starts the pipeline with the manual trigger's reason.
  It does not when that reason is the empty string: \<^verbatim>\<open>processQueue\<close> takes
  \<^verbatim>\<open>this.pendingReason || 'change detected'\<close>, and the empty string is falsy.
\<close>

theorem manual_trigger_empty_reason:
  "inflight (triggerSync ''t1'' (Some '''') (new_service cfg0)) = [(''change detected'', ''t1'')]"
  by (simp add: triggerSync_free new_service_ok pending_or_default_def runSync_begin_fields
        cancel_timer_fields)

text \<open>
  C9, amended: on a service that is not paused, a manual trigger cancels any pending
  debounce timeout. If \<^verbatim>\<open>running\<close> is false it starts a run at once, whose reason is
  the trigger's reason (\<^verbatim>\<open>manual trigger\<close> when none is given), or
  \<^verbatim>\<open>change detected\<close> when that reason is empty. If \<^verbatim>\<open>running\<close> is true no run
  starts: the reason is stored as the pending reason and one timeout is set for the
  debounce window. A firing of that timeout while the run is still in flight sets it
  again and keeps the reason; its firing after the run has settled starts the run for the
  remembered reason.
\<close>

theorem manual_trigger_runs_or_waits:
  assumes "\<not> paused s" "timers_ok s"
  shows "let given = (case reason of None \<Rightarrow> ''manual trigger'' | Some r \<Rightarrow> r);
             used = (if given = [] then ''change detected'' else given);
             s1 = triggerSync now reason s
         in if running s
            then inflight s1 = inflight s \<and> pendingReason s1 = Some given
                 \<and> armed s1 = [(next_handle s, debounceMs s)] \<and> timer s1 = Some (next_handle s)
                 \<and> (case step (TimerFires ts (next_handle s)) s1 of
                       None \<Rightarrow> False
                     | Some s2 \<Rightarrow>
                         inflight s2 = inflight s \<and> pendingReason s2 = Some given
                         \<and> armed s2 = [(Suc (next_handle s), debounceMs s)])
                 \<and> (case step (TimerFires ts (next_handle s)) (runSync_finish t0 r0 outcome s1) of
                       None \<Rightarrow> False
                     | Some s3 \<Rightarrow>
                         inflight s3 = remove1 (r0, t0) (inflight s) @ [(used, ts)]
                         \<and> armed s3 = [] \<and> pendingReason s3 = None)
            else inflight s1 = inflight s @ [(used, now)]
                 \<and> armed s1 = [] \<and> timer s1 = None \<and> pendingReason s1 = None
                 \<and> state s1 = Syncing \<and> running s1"
proof -
  define given where "given = (case reason of None \<Rightarrow> ''manual trigger'' | Some r \<Rightarrow> r)"
  define used where "used = (if given = [] then ''change detected'' else given)"
  define s1 where "s1 = triggerSync now reason s"
  have used_eq: "pending_or_default (Some given) = used"
    by (simp add: pending_or_default_def used_def)
  have ok': "timers_ok (s\<lparr>pendingReason := Some given\<rparr>)"
    using assms(2) by (simp add: timers_ok_pending)
  have "if running s
            then inflight s1 = inflight s \<and> pendingReason s1 = Some given
                 \<and> armed s1 = [(next_handle s, debounceMs s)] \<and> timer s1 = Some (next_handle s)
                 \<and> (case step (TimerFires ts (next_handle s)) s1 of
                       None \<Rightarrow> False
                     | Some s2 \<Rightarrow>
                         inflight s2 = inflight s \<and> pendingReason s2 = Some given
                         \<and> armed s2 = [(Suc (next_handle s), debounceMs s)])
                 \<and> (case step (TimerFires ts (next_handle s)) (runSync_finish t0 r0 outcome s1) of
                       None \<Rightarrow> False
                     | Some s3 \<Rightarrow>
                         inflight s3 = remove1 (r0, t0) (inflight s) @ [(used, ts)]
                         \<and> armed s3 = [] \<and> pendingReason s3 = None)
            else inflight s1 = inflight s @ [(used, now)]
                 \<and> armed s1 = [] \<and> timer s1 = None \<and> pendingReason s1 = None
                 \<and> state s1 = Syncing \<and> running s1"
  proof (cases "running s")
    case True
    have s1: "s1 = arm_timer (cancel_timer (s\<lparr>pendingReason := Some given\<rparr>))"
      unfolding s1_def given_def by (rule triggerSync_busy [OF assms(1) True])
    have f1: "inflight s1 = inflight s" "pendingReason s1 = Some given"
      "armed s1 = [(next_handle s, debounceMs s)]" "timer s1 = Some (next_handle s)"
      "running s1" "next_handle s1 = Suc (next_handle s)" "debounceMs s1 = debounceMs s"
      "paused s1 = paused s"
      using True cancel_timer_armed [OF ok']
      by (simp_all add: s1 arm_timer_fields cancel_timer_fields)
    have "step (TimerFires ts (next_handle s)) s1 = Some (arm_timer (clearTimeout (next_handle s) s1))"
      using f1 by (intro timer_fires_busy) simp_all
    then have again: "case step (TimerFires ts (next_handle s)) s1 of
                       None \<Rightarrow> False
                     | Some s2 \<Rightarrow>
                         inflight s2 = inflight s \<and> pendingReason s2 = Some given
                         \<and> armed s2 = [(Suc (next_handle s), debounceMs s)]"
      using f1 by (simp add: arm_timer_fields clearTimeout_def)
    let ?s' = "runSync_finish t0 r0 outcome s1"
    have f': "\<not> running ?s'" "\<not> paused ?s'" "armed ?s' = [(next_handle s, debounceMs s)]"
      "pendingReason ?s' = Some given" "inflight ?s' = remove1 (r0, t0) (inflight s)"
      using f1 assms(1) by (simp_all add: runSync_finish_fields)
    have "step (TimerFires ts (next_handle s)) ?s' =
           Some (runSync_begin ts (pending_or_default (pendingReason ?s'))
                   ((clearTimeout (next_handle s) ?s')\<lparr>pendingReason := None, timer := None\<rparr>))"
      using f' by (intro timer_fires_free) simp_all
    then have later: "case step (TimerFires ts (next_handle s)) ?s' of
                       None \<Rightarrow> False
                     | Some s3 \<Rightarrow>
                         inflight s3 = remove1 (r0, t0) (inflight s) @ [(used, ts)]
                         \<and> armed s3 = [] \<and> pendingReason s3 = None"
      using f' by (simp add: runSync_begin_fields clearTimeout_def used_eq)
    show ?thesis using True f1 again later by simp
  next
    case False
    have s1: "s1 = runSync_begin now used
             ((cancel_timer (s\<lparr>pendingReason := Some given\<rparr>))\<lparr>pendingReason := None, timer := None\<rparr>)"
      unfolding s1_def given_def used_eq [unfolded given_def, symmetric]
      by (rule triggerSync_free [OF assms(1) False assms(2)])
    show ?thesis
      using False cancel_timer_armed [OF ok']
      by (simp add: s1 runSync_begin_fields cancel_timer_fields)
  qed
  then show ?thesis
    unfolding Let_def given_def [symmetric] used_def [symmetric] s1_def [symmetric] .
qed

theorem manual_trigger_runs_or_waits_witness:
  "\<not> paused syncing0 \<and> timers_ok syncing0 \<and> running syncing0
   \<and> pendingReason (triggerSync ''t1'' None syncing0) = Some ''manual trigger''
   \<and> armed (triggerSync ''t1'' None syncing0) = [(0, 2000)]
   \<and> (case step (TimerFires ''t2'' 0)
               (runSync_finish ''t0'' ''Startup Sync'' outcome0 (triggerSync ''t1'' None syncing0)) of
         None \<Rightarrow> False
       | Some s3 \<Rightarrow> inflight s3 = [(''manual trigger'', ''t2'')] \<and> armed s3 = [])"
  using manual_trigger_runs_or_waits
    [where s = syncing0 and reason = None and now = "''t1''" and ts = "''t2''"
       and ?t0.0 = "''t0''" and ?r0.0 = "''Startup Sync''" and outcome = outcome0]
  by (simp add: syncing0_fields Let_def split: option.splits)

subsection \<open>C10: the history records the reason in title case\<close>

text \<open>
  C10: the entry a run hands to the history carries, as its reason, the trigger reason in
  title case (each character that starts a word between single spaces uppercased, all
  else as it was; \<^verbatim>\<open>capitalizeReason\<close> computes exactly that), so with a positive limit
  the last history entry after the run has that reason; for example
  \<^verbatim>\<open>manual trigger\<close> becomes \<^verbatim>\<open>Manual Trigger\<close>. \<^verbatim>\<open>lastResult.reason\<close> is never
  capitalised: after a resolved run it is the upload's own reason when that is truthy and
  the raw trigger reason otherwise; after a failed run it is absent.
\<close>

theorem history_reason_title_cased:
  "he_reason (run_entry ts reason outcome) = title_case reason
   \<and> (\<exists>k. history (runSync_finish ts reason outcome s)
            = drop k (history s @ [run_entry ts reason outcome]))
   \<and> (0 < historyLimit s \<longrightarrow>
        history (runSync_finish ts reason outcome s) \<noteq> []
        \<and> he_reason (last (history (runSync_finish ts reason outcome s))) = title_case reason)
   \<and> (case outcome of
         Inr (dir, u) \<Rightarrow>
           map_option lr_reason (lastResult (runSync_finish ts reason outcome s))
             = Some (if truthy (ur_reason u) then ur_reason u else Some reason)
       | Inl msg \<Rightarrow>
           map_option lr_reason (lastResult (runSync_finish ts reason outcome s)) = Some None)
   \<and> title_case ''manual trigger'' = ''Manual Trigger''"
proof -
  have entry: "he_reason (run_entry ts reason outcome) = title_case reason"
    by (simp add: run_entry_fields capitalizeReason_title_case)
  have suffix: "\<exists>k. history (runSync_finish ts reason outcome s)
                  = drop k (history s @ [run_entry ts reason outcome])"
    unfolding runSync_finish_fields by (rule pushHistory_suffix)
  have stored: "0 < historyLimit s \<longrightarrow>
        history (runSync_finish ts reason outcome s) \<noteq> []
        \<and> he_reason (last (history (runSync_finish ts reason outcome s))) = title_case reason"
    using entry by (simp add: runSync_finish_fields pushHistory_last)
  have raw: "(case outcome of
         Inr (dir, u) \<Rightarrow>
           map_option lr_reason (lastResult (runSync_finish ts reason outcome s))
             = Some (if truthy (ur_reason u) then ur_reason u else Some reason)
       | Inl msg \<Rightarrow>
           map_option lr_reason (lastResult (runSync_finish ts reason outcome s)) = Some None)"
    by (simp add: runSync_finish_fields run_result_def js_or_def split: sum.splits prod.splits)
  have example: "title_case ''manual trigger'' = ''Manual Trigger''"
    by (simp add: title_case_def toUpperCase_def)
  from entry suffix stored raw example show ?thesis by blast
qed

theorem history_reason_title_cased_witness:
  "0 < historyLimit (new_service cfg0)
   \<and> history (runSync_finish ''t1'' ''file changed: a.tfx'' outcome0 (new_service cfg0)) \<noteq> []
   \<and> he_reason (last (history
          (runSync_finish ''t1'' ''file changed: a.tfx'' outcome0 (new_service cfg0))))
       = ''File Changed: A.tfx''
   \<and> map_option lr_reason
         (lastResult (runSync_finish ''t1'' ''file changed: a.tfx'' outcome0 (new_service cfg0)))
       = Some (Some ''file changed: a.tfx'')"
proof -
  have limit: "0 < historyLimit (new_service cfg0)"
    by (simp add: new_service_def cfg0_def number_or_def DEFAULT_HISTORY_LIMIT_def)
  have tc: "title_case ''file changed: a.tfx'' = ''File Changed: A.tfx''"
    by (simp add: title_case_def toUpperCase_def)
  show ?thesis
    using limit tc
      history_reason_title_cased
        [of "''t1''" "''file changed: a.tfx''" outcome0 "new_service cfg0"]
    by (simp add: outcome0_def truthy_def)
qed

end
